theory Spec2Isabelle
  imports Complex_Main "HOL-Library.Monad_Syntax"
begin

section \<open>Shared API types (shared/api)\<close>

text \<open>
  The wire types of the chess application. Field names follow the TypeScript interfaces;
  where two interfaces share a field name, or the name is an Isar keyword (\<open>from\<close>,
  \<open>to\<close>), the field carries a short prefix.
\<close>

datatype color = White | Black

datatype status = Active | Checkmate | Stalemate | Draw | Resignation

datatype difficulty = Beginner | Intermediate | Advanced | Stockfish

datatype colorChoice = ChooseWhite | ChooseBlack | ChooseRandom

record ChessPosition =
  fen :: string
  turn :: string

record ChessMove =
  m_from :: string
  m_to :: string
  m_san :: string
  m_fen :: string
  m_timestamp :: string
  isPlayerMove :: bool

record GameSettings =
  tc_initial :: int
  tc_increment :: int
  difficulty :: difficulty
  colorSetting :: colorChoice

text \<open>
  \<open>result\<close> is declared as \<open>'1-0' | '0-1' | '1/2-1/2'\<close> but is assigned from
  \<open>getGameStatus(...) as any\<close>, so it is kept as the string the code stores.
\<close>

record ChessGame =
  gid :: string
  playerColor :: color
  currentPosition :: ChessPosition
  moves :: "ChessMove list"
  status :: status
  settings :: GameSettings
  startTime :: string
  endTime :: "string option"
  result :: "string option"

record UserStats =
  totalAnalyses :: int
  totalGames :: int
  gamesWon :: int
  gamesLost :: int
  gamesDrawn :: int
  currentRating :: int
  favoriteOpenings :: "string list"

section \<open>DataService: the in-memory store\<close>

text \<open>
  The store's \<open>games\<close> map and the aggregate statistics. The map of analyses (the two
  samples of the constructor and what \<open>saveAnalysis\<close> adds) is not read or written by any
  game operation and is left out of the record.
\<close>

record DataStore =
  games :: "string \<rightharpoonup> ChessGame"
  stats :: UserStats

text \<open>
  The statistics once the constructor has run: it starts every counter at 0 and the rating
  at 1200, and \<open>initializeSampleData\<close> then sets \<open>totalAnalyses\<close> to the number of sample
  analyses it has added, which is 2.
\<close>

definition initialStats :: UserStats where
  "initialStats = \<lparr> totalAnalyses = 2, totalGames = 0, gamesWon = 0, gamesLost = 0,
     gamesDrawn = 0, currentRating = 1200,
     favoriteOpenings = [''Italian Game'', ''Sicilian Defense'', ''Queen's Gambit''] \<rparr>"

definition initialStore :: DataStore where
  "initialStore = \<lparr> games = Map.empty, stats = initialStats \<rparr>"

text \<open>
  \<open>DataService.saveGame\<close>: store the game under its id; when the game is no longer
  active, count it and move the rating, then clamp the rating.
\<close>

definition saveGame :: "DataStore \<Rightarrow> ChessGame \<Rightarrow> DataStore" where
  "saveGame d game =
     (let d1 = d\<lparr> games := (games d)(gid game \<mapsto> game) \<rparr> in
      if status game \<noteq> Active then
        let s0 = (stats d1)\<lparr> totalGames := totalGames (stats d1) + 1 \<rparr>;
            s1 = (if result game = Some ''1-0'' \<and> playerColor game = White then
                    s0\<lparr> gamesWon := gamesWon s0 + 1, currentRating := currentRating s0 + 20 \<rparr>
                  else if result game = Some ''0-1'' \<and> playerColor game = Black then
                    s0\<lparr> gamesWon := gamesWon s0 + 1, currentRating := currentRating s0 + 20 \<rparr>
                  else if result game = Some ''1/2-1/2'' then
                    s0\<lparr> gamesDrawn := gamesDrawn s0 + 1, currentRating := currentRating s0 + 5 \<rparr>
                  else
                    s0\<lparr> gamesLost := gamesLost s0 + 1, currentRating := currentRating s0 - 15 \<rparr>)
        in d1\<lparr> stats := s1\<lparr> currentRating := max 800 (min 2400 (currentRating s1)) \<rparr> \<rparr>
      else d1)"

definition getGame :: "DataStore \<Rightarrow> string \<Rightarrow> ChessGame option" where
  "getGame d gameId = games d gameId"

subsection \<open>The rating rule as the specification words it\<close>

datatype outcome = Win | Drawn | Loss

text \<open>
  Win, draw or loss is read off the stored result and the player's recorded side: the
  player wins when the result names the player's colour as winner, loses when it names the
  other colour, and draws on \<open>1/2-1/2\<close>. Any other stored value decides nothing.
\<close>

definition gameOutcome :: "ChessGame \<Rightarrow> outcome option" where
  "gameOutcome game =
     (if result game = Some ''1/2-1/2'' then Some Drawn
      else if result game = Some ''1-0'' then Some (if playerColor game = White then Win else Loss)
      else if result game = Some ''0-1'' then Some (if playerColor game = Black then Win else Loss)
      else None)"

fun ratingDelta :: "outcome \<Rightarrow> int" where
  "ratingDelta Win = 20"
| "ratingDelta Drawn = 5"
| "ratingDelta Loss = - 15"

definition clampRating :: "int \<Rightarrow> int" where
  "clampRating r = max 800 (min 2400 r)"

definition ratingOf :: "DataStore \<Rightarrow> int" where
  "ratingOf d = currentRating (stats d)"

section \<open>JavaScript helpers\<close>

text \<open>
  \<open>s.split(c)\<close> for a one-character separator: the pieces between separators, in order
  (always at least one piece).
\<close>

fun splitOn :: "char \<Rightarrow> string \<Rightarrow> string list" where
  "splitOn sep [] = [[]]"
| "splitOn sep (c # cs) =
     (if c = sep then [] # splitOn sep cs
      else (case splitOn sep cs of
              [] \<Rightarrow> [[c]]
            | w # ws \<Rightarrow> (c # w) # ws))"

text \<open>\<open>s.replace(pat, rep)\<close> with a string pattern: only the first occurrence is replaced.\<close>

fun replaceFirst :: "string \<Rightarrow> string \<Rightarrow> string \<Rightarrow> string" where
  "replaceFirst pat rep [] = (if pat = [] then rep else [])"
| "replaceFirst pat rep (c # cs) =
     (if take (length pat) (c # cs) = pat then rep @ drop (length pat) (c # cs)
      else c # replaceFirst pat rep cs)"

text \<open>\<open>s.includes(pat)\<close>.\<close>

fun includesStr :: "string \<Rightarrow> string \<Rightarrow> bool" where
  "includesStr [] pat = (pat = [])"
| "includesStr (c # cs) pat = (take (length pat) (c # cs) = pat \<or> includesStr cs pat)"

text \<open>\<open>xs[i]\<close> for an index that may be out of range (\<open>undefined\<close> is \<open>None\<close>).\<close>

fun nthOpt :: "'a list \<Rightarrow> nat \<Rightarrow> 'a option" where
  "nthOpt [] i = None"
| "nthOpt (x # xs) 0 = Some x"
| "nthOpt (x # xs) (Suc i) = nthOpt xs i"

text \<open>
  \<open>xs[Math.floor(r * n)]\<close>: the element at the floor of a product; a negative or too
  large index reads \<open>undefined\<close>.
\<close>

definition atFloor :: "'a list \<Rightarrow> rat \<Rightarrow> 'a option" where
  "atFloor xs x = (if 0 \<le> \<lfloor>x\<rfloor> then nthOpt xs (nat \<lfloor>x\<rfloor>) else None)"

text \<open>
  Numbers. Whole numbers (piece values, counts, scores) are integers, which a JavaScript
  number holds exactly up to \<open>2^53\<close>. The numbers \<open>Math.random()\<close> returns and what is
  computed from them are rationals, and their sums, products and quotients are exact: the
  rounding of each operation to the nearest double is not modelled. Where such a number is
  then rounded to a whole number, the model gives the code's result unless the exact value
  lies within a rounding error of a half, where the two can differ by one (the engine's
  evaluation at depth 9 with the draw 0: the noise is \<open>-27.5\<close> here and just below it in
  doubles). From depth 20 on the noise is multiplied by zero and nothing is rounded; the
  values evaluated in this development are exact in doubles or far from a half.

  \<open>Math.round\<close>: the nearest integer, halves rounded up.
\<close>

definition mathRound :: "rat \<Rightarrow> int" where
  "mathRound x = \<lfloor>x + 1 / 2\<rfloor>"

text \<open>Decimal digits of a natural number, and \<open>(v / 100).toFixed(2)\<close> for an integer \<open>v\<close>.\<close>

definition digitChar :: "nat \<Rightarrow> char" where
  "digitChar d = (case nthOpt ''0123456789'' d of Some c \<Rightarrow> c | None \<Rightarrow> CHR ''0'')"

function showNat :: "nat \<Rightarrow> string" where
  "showNat n = (if n < 10 then [digitChar n] else showNat (n div 10) @ [digitChar (n mod 10)])"
  by pat_completeness auto
termination
  by (relation "measure (\<lambda>n. n)") auto

declare showNat.simps [simp del]

definition toFixed2 :: "int \<Rightarrow> string" where
  "toFixed2 v =
     (let a = nat \<bar>v\<bar> in
      (if v < 0 then ''-'' else '''') @ showNat (a div 100) @ ''.'' @
      [digitChar ((a mod 100) div 10), digitChar (a mod 10)])"

text \<open>JavaScript numbers that may be \<open>-Infinity\<close> or \<open>Infinity\<close> (search scores).\<close>

datatype score = NegInf | Fin int | PosInf

fun sneg :: "score \<Rightarrow> score" where
  "sneg NegInf = PosInf"
| "sneg (Fin v) = Fin (- v)"
| "sneg PosInf = NegInf"

fun sgreater :: "score \<Rightarrow> score \<Rightarrow> bool" where
  "sgreater NegInf b = False"
| "sgreater (Fin v) NegInf = True"
| "sgreater (Fin v) (Fin w) = (v > w)"
| "sgreater (Fin v) PosInf = False"
| "sgreater PosInf PosInf = False"
| "sgreater PosInf b = True"

definition smax :: "score \<Rightarrow> score \<Rightarrow> score" where
  "smax a b = (if sgreater b a then b else a)"

section \<open>The rules oracle (chess.js)\<close>

text \<open>
  The chess rules come from the \<open>chess.js\<close> library, which is not part of the repository.
  It is a parameter of every engine function: a record of what the library answers for a
  position, given in Forsyth-Edwards notation.
  \<^item> \<open>validFen\<close>: \<open>new Chess(fen)\<close> and \<open>load(fen)\<close> accept the string (they throw otherwise);
  \<^item> \<open>fenText\<close>: the text \<open>fen()\<close> reports for a board that has loaded the string. The
    library writes it afresh from the board, so it need not be the string that was loaded
    (an en-passant square that no pawn can capture on is dropped, for one);
  \<^item> \<open>legalMoves\<close>: \<open>moves({verbose: true})\<close> of the board that has loaded the string, in
    the library's order; each move carries the position \<open>fen()\<close> reports once it is made
    (\<open>mafter\<close>);
  \<^item> \<open>inCheck\<close>, \<open>insufficientMaterial\<close>, \<open>fiftyMoves\<close>: facts of the position;
  \<^item> \<open>threefold\<close>: repetition, a fact of the positions seen since the board was loaded.
\<close>

record Move =
  mfrom :: string
  mto :: string
  msan :: string
  mpromotion :: "string option"
  mafter :: string

record rules =
  validFen :: "string \<Rightarrow> bool"
  fenText :: "string \<Rightarrow> string"
  legalMoves :: "string \<Rightarrow> Move list"
  inCheck :: "string \<Rightarrow> bool"
  insufficientMaterial :: "string \<Rightarrow> bool"
  fiftyMoves :: "string \<Rightarrow> bool"
  threefold :: "string list \<Rightarrow> bool"

text \<open>
  A \<open>Chess\<close> object: the current position and the positions before each move made since
  the last load (most recent first), which \<open>undo()\<close> restores and \<open>history()\<close> counts.
  The current position is the string that was loaded or, after a move, the position the
  move carries.
\<close>

record Chess =
  position :: string
  earlier :: "string list"

text \<open>An exception of a synchronous call is \<open>None\<close> throughout.\<close>

definition newChess :: "rules \<Rightarrow> string \<Rightarrow> Chess option" where
  "newChess R f = (if validFen R f then Some \<lparr> position = f, earlier = [] \<rparr> else None)"

definition chessLoad :: "rules \<Rightarrow> Chess \<Rightarrow> string \<Rightarrow> Chess option" where
  "chessLoad R c f = (if validFen R f then Some \<lparr> position = f, earlier = [] \<rparr> else None)"

text \<open>
  \<open>fen()\<close>: on a board as it was loaded (no move made since), the library's text for the
  loaded string; after a move, the position the move carries, which is that text already.
\<close>

definition chessFen :: "rules \<Rightarrow> Chess \<Rightarrow> string" where
  "chessFen R c = (if earlier c = [] then fenText R (position c) else position c)"

definition chessMoves :: "rules \<Rightarrow> Chess \<Rightarrow> Move list" where
  "chessMoves R c = legalMoves R (position c)"

definition historyLength :: "Chess \<Rightarrow> nat" where
  "historyLength c = length (earlier c)"

text \<open>
  \<open>chess.move(obj)\<close> with an object: the first legal move with the same origin and
  destination, and the same promotion piece when the legal move promotes. Without such a
  move the call throws. (The routes and \<open>isLegalMove\<close> also allow for the \<open>null\<close>
  that older versions of the library returned; the model follows the throwing version.)
\<close>

record MoveRequest =
  r_from :: string
  r_to :: string
  r_promotion :: "string option"

definition matchesRequest :: "MoveRequest \<Rightarrow> Move \<Rightarrow> bool" where
  "matchesRequest q m \<longleftrightarrow>
     r_from q = mfrom m \<and> r_to q = mto m \<and> (mpromotion m = None \<or> r_promotion q = mpromotion m)"

definition requestOf :: "Move \<Rightarrow> MoveRequest" where
  "requestOf m = \<lparr> r_from = mfrom m, r_to = mto m, r_promotion = mpromotion m \<rparr>"

definition chessMove :: "rules \<Rightarrow> Chess \<Rightarrow> MoveRequest \<Rightarrow> (Move \<times> Chess) option" where
  "chessMove R c q =
     (case find (matchesRequest q) (chessMoves R c) of
        None \<Rightarrow> None
      | Some m \<Rightarrow> Some (m, \<lparr> position = mafter m, earlier = position c # earlier c \<rparr>))"

text \<open>
  The library's own definitions: checkmate is check without a legal move, stalemate is no
  check and no legal move; a draw is a full fifty-move counter, stalemate, insufficient
  material or a threefold repetition; the game is over on checkmate, stalemate or a draw.
\<close>

definition isCheckmate :: "rules \<Rightarrow> Chess \<Rightarrow> bool" where
  "isCheckmate R c \<longleftrightarrow> inCheck R (position c) \<and> chessMoves R c = []"

definition isStalemate :: "rules \<Rightarrow> Chess \<Rightarrow> bool" where
  "isStalemate R c \<longleftrightarrow> \<not> inCheck R (position c) \<and> chessMoves R c = []"

definition isDraw :: "rules \<Rightarrow> Chess \<Rightarrow> bool" where
  "isDraw R c \<longleftrightarrow>
     fiftyMoves R (position c) \<or> isStalemate R c \<or> insufficientMaterial R (position c)
     \<or> threefold R (position c # earlier c)"

definition isGameOver :: "rules \<Rightarrow> Chess \<Rightarrow> bool" where
  "isGameOver R c \<longleftrightarrow> isCheckmate R c \<or> isStalemate R c \<or> isDraw R c"

text \<open>\<open>chess.turn()\<close>: the side-to-move field of the position.\<close>

definition fenTurn :: "string \<Rightarrow> string" where
  "fenTurn f = (case nthOpt (splitOn CHR '' '' f) 1 of Some t \<Rightarrow> t | None \<Rightarrow> [])"

definition chessTurn :: "Chess \<Rightarrow> string" where
  "chessTurn c = fenTurn (position c)"

subsection \<open>The board of a position\<close>

record Piece =
  ptype :: char
  pcolor :: char

definition pieceOfChar :: "char \<Rightarrow> Piece option" where
  "pieceOfChar ch = map_of
     [(CHR ''P'', \<lparr> ptype = CHR ''p'', pcolor = CHR ''w'' \<rparr>),
      (CHR ''N'', \<lparr> ptype = CHR ''n'', pcolor = CHR ''w'' \<rparr>),
      (CHR ''B'', \<lparr> ptype = CHR ''b'', pcolor = CHR ''w'' \<rparr>),
      (CHR ''R'', \<lparr> ptype = CHR ''r'', pcolor = CHR ''w'' \<rparr>),
      (CHR ''Q'', \<lparr> ptype = CHR ''q'', pcolor = CHR ''w'' \<rparr>),
      (CHR ''K'', \<lparr> ptype = CHR ''k'', pcolor = CHR ''w'' \<rparr>),
      (CHR ''p'', \<lparr> ptype = CHR ''p'', pcolor = CHR ''b'' \<rparr>),
      (CHR ''n'', \<lparr> ptype = CHR ''n'', pcolor = CHR ''b'' \<rparr>),
      (CHR ''b'', \<lparr> ptype = CHR ''b'', pcolor = CHR ''b'' \<rparr>),
      (CHR ''r'', \<lparr> ptype = CHR ''r'', pcolor = CHR ''b'' \<rparr>),
      (CHR ''q'', \<lparr> ptype = CHR ''q'', pcolor = CHR ''b'' \<rparr>),
      (CHR ''k'', \<lparr> ptype = CHR ''k'', pcolor = CHR ''b'' \<rparr>)] ch"

definition emptyRun :: "char \<Rightarrow> nat option" where
  "emptyRun ch = map_of
     [(CHR ''1'', 1), (CHR ''2'', 2), (CHR ''3'', 3), (CHR ''4'', 4),
      (CHR ''5'', 5), (CHR ''6'', 6), (CHR ''7'', 7), (CHR ''8'', 8)] ch"

fun parseRank :: "string \<Rightarrow> Piece option list" where
  "parseRank [] = []"
| "parseRank (ch # cs) =
     (case emptyRun ch of
        Some n \<Rightarrow> replicate n None @ parseRank cs
      | None \<Rightarrow> pieceOfChar ch # parseRank cs)"

text \<open>
  \<open>chess.board()\<close>: eight rows of eight squares, rank 8 first, read from the piece
  placement field. The result is always 8 by 8, as in the library; for a position the
  library accepts this is exactly the placement field.
\<close>

definition boardOf :: "string \<Rightarrow> Piece option list list" where
  "boardOf f =
     (let placement = (case splitOn CHR '' '' f of [] \<Rightarrow> [] | p # _ \<Rightarrow> p);
          rows = map parseRank (splitOn CHR ''/'' placement)
      in map (\<lambda>row. take 8 (row @ replicate 8 None)) (take 8 (rows @ replicate 8 [])))"

definition chessBoard :: "Chess \<Rightarrow> Piece option list list" where
  "chessBoard c = boardOf (position c)"

fun indexOf :: "'a \<Rightarrow> 'a list \<Rightarrow> nat option" where
  "indexOf x [] = None"
| "indexOf x (y # ys) = (if x = y then Some 0 else map_option Suc (indexOf x ys))"

text \<open>\<open>chess.get(square)\<close> for a square name such as \<open>e4\<close>.\<close>

definition chessGet :: "Chess \<Rightarrow> string \<Rightarrow> Piece option" where
  "chessGet c sq =
     (case sq of
        [fl, rk] \<Rightarrow>
          (case (indexOf fl ''abcdefgh'', indexOf rk ''87654321'') of
             (Some col, Some row) \<Rightarrow>
               (case nthOpt (chessBoard c) row of
                  Some r \<Rightarrow> (case nthOpt r col of Some p \<Rightarrow> p | None \<Rightarrow> None)
                | None \<Rightarrow> None)
           | _ \<Rightarrow> None)
      | _ \<Rightarrow> None)"

section \<open>StockfishEngine: the simulated engine\<close>

datatype evalType = Cp | Mate

record Evaluation =
  etype :: evalType
  evalue :: int
  formatted :: string

text \<open>\<open>pieceValues[type] || 0\<close>.\<close>

definition pieceValue :: "char \<Rightarrow> int" where
  "pieceValue t =
     (case map_of [(CHR ''p'', 100), (CHR ''n'', 320), (CHR ''b'', 330),
                   (CHR ''r'', 500), (CHR ''q'', 900), (CHR ''k'', 0)] t of
        Some v \<Rightarrow> v
      | None \<Rightarrow> 0)"

definition evaluateMaterial :: "Chess \<Rightarrow> int" where
  "evaluateMaterial chess =
     foldl (\<lambda>material row.
        foldl (\<lambda>material square.
           (case square of
              None \<Rightarrow> material
            | Some p \<Rightarrow> material + (if pcolor p = CHR ''w'' then pieceValue (ptype p)
                                      else - pieceValue (ptype p))))
          material row)
       0 (chessBoard chess)"

definition isMinorOf :: "char \<Rightarrow> Piece option \<Rightarrow> bool" where
  "isMinorOf col sq =
     (case sq of
        None \<Rightarrow> False
      | Some p \<Rightarrow> pcolor p = col \<and> (ptype p = CHR ''n'' \<or> ptype p = CHR ''b''))"

definition countDevelopedPieces :: "Chess \<Rightarrow> int \<times> int" where
  "countDevelopedPieces chess =
     (int (length (filter (\<lambda>sq. isMinorOf CHR ''w'' (chessGet chess sq))
        [''c3'', ''d2'', ''e2'', ''f3'', ''g3'', ''c4'', ''d3'', ''e3'', ''f4'', ''g4''])),
      int (length (filter (\<lambda>sq. isMinorOf CHR ''b'' (chessGet chess sq))
        [''c6'', ''d7'', ''e7'', ''f6'', ''g6'', ''c5'', ''d6'', ''e6'', ''f5'', ''g5''])))"

definition evaluatePosition :: "Chess \<Rightarrow> int" where
  "evaluatePosition chess =
     (let positional =
            foldl (\<lambda>positional sq.
               (case chessGet chess sq of
                  None \<Rightarrow> positional
                | Some p \<Rightarrow> positional + (if pcolor p = CHR ''w'' then 20 else - 20)))
              0 [''d4'', ''d5'', ''e4'', ''e5'']
      in if historyLength chess < 10 then
           (case countDevelopedPieces chess of
              (white, black) \<Rightarrow> positional + (white * 10 - black * 10))
         else positional)"

definition isKingOf :: "char \<Rightarrow> Chess \<Rightarrow> nat \<times> nat \<Rightarrow> bool" where
  "isKingOf col chess rc =
     (case rc of (row, c) \<Rightarrow>
        (case nthOpt (chessBoard chess) row of
           None \<Rightarrow> False
         | Some r \<Rightarrow>
             (case nthOpt r c of
                Some (Some p) \<Rightarrow> ptype p = CHR ''k'' \<and> pcolor p = col
              | _ \<Rightarrow> False)))"

text \<open>
  \<open>findKing\<close>: rows 0 to 7, columns 0 to 7, the first king of the colour; its square is
  named \<open>String.fromCharCode(97 + col) + (8 - row)\<close>.
\<close>

definition findKing :: "Chess \<Rightarrow> char \<Rightarrow> string option" where
  "findKing chess col =
     (case find (isKingOf col chess) (List.product [0..<8] [0..<8]) of
        None \<Rightarrow> None
      | Some (row, c) \<Rightarrow>
          Some [(case nthOpt ''abcdefgh'' c of Some ch \<Rightarrow> ch | None \<Rightarrow> CHR ''a''),
                digitChar (8 - row)])"

definition countAttackers :: "rules \<Rightarrow> Chess \<Rightarrow> string \<Rightarrow> char \<Rightarrow> int" where
  "countAttackers R chess square attackerColor =
     int (length (filter
        (\<lambda>move. mto move = square \<and>
           (case chessGet chess (mfrom move) of
              None \<Rightarrow> False
            | Some p \<Rightarrow> pcolor p = attackerColor))
        (chessMoves R chess)))"

definition evaluateKingSafety :: "rules \<Rightarrow> Chess \<Rightarrow> int" where
  "evaluateKingSafety R chess =
     (case (findKing chess CHR ''w'', findKing chess CHR ''b'') of
        (Some whiteKing, Some blackKing) \<Rightarrow>
          (let whiteAttackers = countAttackers R chess whiteKing CHR ''b'';
               blackAttackers = countAttackers R chess blackKing CHR ''w''
           in 0 - whiteAttackers * 15 + blackAttackers * 15)
      | _ \<Rightarrow> 0)"

text \<open>
  \<open>evaluateMobility\<close> counts the moves of the loaded position, then loads the position
  again with \<open>fen().replace(' w ', ' b ').replace(' b ', ' w ')\<close> and counts once more.
  The board object is left on the reloaded position, so the function returns it as well.
  When the library does not accept the replaced text, \<open>load\<close> throws.
\<close>

definition flipTurn :: "string \<Rightarrow> string" where
  "flipTurn f = replaceFirst '' b '' '' w '' (replaceFirst '' w '' '' b '' f)"

definition evaluateMobility :: "rules \<Rightarrow> Chess \<Rightarrow> (int \<times> Chess) option" where
  "evaluateMobility R chess =
     (let whiteMoves = int (length (chessMoves R chess)) in
      case chessLoad R chess (flipTurn (chessFen R chess)) of
        None \<Rightarrow> None
      | Some chess' \<Rightarrow>
          (let blackMoves = int (length (chessMoves R chess'))
           in Some ((whiteMoves - blackMoves) * 2, chess')))"

text \<open>
  \<open>calculateStockfishEvaluation(fen, depth)\<close>; \<open>r\<close> is the number that the call of
  \<open>Math.random()\<close> in it returns.
\<close>

definition calculateStockfishEvaluation :: "rules \<Rightarrow> rat \<Rightarrow> string \<Rightarrow> int \<Rightarrow> Evaluation option" where
  "calculateStockfishEvaluation R r f depth =
     (case newChess R f of
        None \<Rightarrow> None
      | Some chess \<Rightarrow>
          (let e1 = evaluateMaterial chess;
               e2 = e1 + evaluatePosition chess;
               e3 = e2 + evaluateKingSafety R chess
           in case evaluateMobility R chess of
                None \<Rightarrow> None
              | Some (mobility, chess') \<Rightarrow>
                  (let e4 = e3 + mobility;
                       accuracy = min (of_int depth / 20) (1 :: rat);
                       e5 = of_int e4 + (r - 1 / 2) * 100 * (1 - accuracy);
                       evaluation = mathRound e5
                   in if isGameOver R chess' then
                        (if isCheckmate R chess' then
                           (let mateScore = (if chessTurn chess' = ''w'' then - 30000 else (30000 :: int))
                            in Some \<lparr> etype = Mate,
                                      evalue = (if mateScore > 0 then 1 else - 1),
                                      formatted = (if mateScore > 0 then ''M1'' else ''M-1'') \<rparr>)
                         else Some \<lparr> etype = Cp, evalue = 0, formatted = ''0.00'' \<rparr>)
                      else Some \<lparr> etype = Cp, evalue = evaluation,
                                  formatted = (if evaluation > 0 then ''+'' @ toFixed2 evaluation
                                               else toFixed2 evaluation) \<rparr>)))"

text \<open>
  \<open>evaluateQuick\<close>: the first three moves of each position, negated and maximised. Each
  move is made and undone on the same board object, so every iteration starts from
  \<open>chess\<close>.
\<close>

function evaluateQuick :: "rules \<Rightarrow> Chess \<Rightarrow> int \<Rightarrow> score option" where
  "evaluateQuick R chess depth =
     (if depth \<le> 0 \<or> isGameOver R chess then
        Some (Fin (evaluateMaterial chess + evaluatePosition chess))
      else
        foldl (\<lambda>acc move.
           (case acc of
              None \<Rightarrow> None
            | Some maxScore \<Rightarrow>
                (case chessMove R chess (requestOf move) of
                   None \<Rightarrow> None
                 | Some (made, chess') \<Rightarrow>
                     (case evaluateQuick R chess' (depth - 1) of
                        None \<Rightarrow> None
                      | Some s \<Rightarrow> Some (smax maxScore (sneg s))))))
          (Some NegInf) (take 3 (chessMoves R chess)))"
  by pat_completeness auto
termination
  by (relation "measure (\<lambda>(R, chess, depth). nat depth)") auto

declare evaluateQuick.simps [simp del]

record BestMove =
  bm_from :: string
  bm_to :: string
  bm_san :: string
  bm_promotion :: "string option"

definition bestMoveOf :: "Move \<Rightarrow> BestMove" where
  "bestMoveOf m = \<lparr> bm_from = mfrom m, bm_to = mto m, bm_san = msan m,
                    bm_promotion = mpromotion m \<rparr>"

definition calculateBestMove :: "rules \<Rightarrow> string \<Rightarrow> int \<Rightarrow> BestMove option" where
  "calculateBestMove R f depth =
     (case newChess R f of
        None \<Rightarrow> None
      | Some chess \<Rightarrow>
          (let moves = chessMoves R chess in
           case moves of
             [] \<Rightarrow> Some \<lparr> bm_from = '''', bm_to = '''', bm_san = ''No legal moves'',
                          bm_promotion = None \<rparr>
           | first # _ \<Rightarrow>
               (case foldl (\<lambda>acc move.
                       (case acc of
                          None \<Rightarrow> None
                        | Some (bestMove, bestScore) \<Rightarrow>
                            (case chessMove R chess (requestOf move) of
                               None \<Rightarrow> None
                             | Some (made, chess') \<Rightarrow>
                                 (case evaluateQuick R chess' depth of
                                    None \<Rightarrow> None
                                  | Some sc \<Rightarrow>
                                      Some (if sgreater sc bestScore then (move, sc)
                                            else (bestMove, bestScore))))))
                     (Some (first, NegInf)) (take (min (length moves) 10) moves) of
                  None \<Rightarrow> None
                | Some (bestMove, bestScore) \<Rightarrow> Some (bestMoveOf bestMove))))"

text \<open>
  The loop of \<open>calculatePrincipalVariation\<close>, from counter \<open>i\<close>; \<open>rs i\<close> is the number
  \<open>Math.random()\<close> returns in the iteration with counter \<open>i\<close>.
\<close>

function pvLoop :: "rules \<Rightarrow> (int \<Rightarrow> rat) \<Rightarrow> Chess \<Rightarrow> string list \<Rightarrow> int \<Rightarrow> int \<Rightarrow> string list option" where
  "pvLoop R rs chess pv i depth =
     (if i < depth then
        (let moves = chessMoves R chess in
         if length moves = 0 then Some pv
         else
           (case atFloor moves (rs i * of_nat (min 3 (length moves))) of
              None \<Rightarrow> None
            | Some nextMove \<Rightarrow>
                (case chessMove R chess (requestOf nextMove) of
                   None \<Rightarrow> None
                 | Some (made, chess') \<Rightarrow>
                     pvLoop R rs chess' (pv @ [msan nextMove]) (i + 1) depth)))
      else Some pv)"
  by pat_completeness auto
termination
  by (relation "measure (\<lambda>(R, rs, chess, pv, i, depth). nat (depth - i))") auto

declare pvLoop.simps [simp del]

definition calculatePrincipalVariation ::
    "rules \<Rightarrow> (int \<Rightarrow> rat) \<Rightarrow> string \<Rightarrow> BestMove \<Rightarrow> int \<Rightarrow> string list option" where
  "calculatePrincipalVariation R rs f bestMove depth =
     (let pv = [bm_san bestMove] in
      case newChess R f of
        None \<Rightarrow> None
      | Some chess \<Rightarrow>
          (case chessMove R chess \<lparr> r_from = bm_from bestMove, r_to = bm_to bestMove,
                                    r_promotion = bm_promotion bestMove \<rparr> of
             None \<Rightarrow> None
           | Some (made, chess') \<Rightarrow> pvLoop R rs chess' pv 1 depth))"

text \<open>
  The numbers drawn from \<open>Math.random()\<close> during one \<open>analyzePosition\<close>: for the noise of
  the evaluation, for each iteration of the variation loop, and for the simulated node
  count, time and speed. (The draw for the simulated delay has no effect on the result,
  and \<open>isReady\<close> is always true, so the "not ready" exception has no branch.)
\<close>

record Draws =
  d_noise :: rat
  d_pv :: "int \<Rightarrow> rat"
  d_nodes :: rat
  d_time :: rat
  d_nps :: rat

text \<open>
  What becomes of the promise of an asynchronous method: it is resolved with a value, it
  is rejected (an exception in the method's own body, which a \<open>try\<close> around the caller's
  \<open>await\<close> catches), or it is never settled and whoever awaits it waits for ever.
\<close>

datatype 'a promise = Resolved 'a | Rejected | Unsettled

record StockfishResult =
  sr_depth :: int
  sr_evaluation :: Evaluation
  sr_bestMove :: BestMove
  sr_principalVariation :: "string list"
  sr_nodes :: int
  sr_time :: int
  sr_nps :: int

text \<open>
  \<open>StockfishEngine.analyzePosition\<close> returns a promise that a timer callback resolves
  with the result. The three calculations run inside that callback: an exception of one of
  them leaves the callback before \<open>resolve\<close> is reached, outside the promise and outside
  every \<open>try\<close> of the callers, and the promise is never settled.
\<close>

definition analyzePosition :: "rules \<Rightarrow> Draws \<Rightarrow> string \<Rightarrow> int \<Rightarrow> StockfishResult promise" where
  "analyzePosition R ds f depth =
     (case calculateStockfishEvaluation R (d_noise ds) f depth of
        None \<Rightarrow> Unsettled
      | Some evaluation \<Rightarrow>
          (case calculateBestMove R f depth of
             None \<Rightarrow> Unsettled
           | Some bestMove \<Rightarrow>
               (case calculatePrincipalVariation R (d_pv ds) f bestMove 3 of
                  None \<Rightarrow> Unsettled
                | Some pv \<Rightarrow>
                    Resolved \<lparr> sr_depth = depth,
                           sr_evaluation = evaluation,
                           sr_bestMove = bestMove,
                           sr_principalVariation = pv,
                           sr_nodes = \<lfloor>d_nodes ds * 100000\<rfloor> + 50000,
                           sr_time = \<lfloor>d_time ds * 2000\<rfloor> + 500,
                           sr_nps = \<lfloor>d_nps ds * 500000\<rfloor> + 1000000 \<rparr>)))"

section \<open>EnhancedChessEngineService\<close>

text \<open>
  Every method loads the position into the service's own board first, so the board's
  earlier content never matters and is not carried between calls. The \<open>pgn\<close> text of
  the analysed position is not part of the model.

  \<open>analyzeWithStockfish\<close>: an exception of \<open>load\<close> is caught and thrown again, which
  rejects the promise; an analysis that is never settled leaves this promise unsettled as
  well.
\<close>

record ChessAnalysis =
  a_position :: ChessPosition
  a_evaluation :: Evaluation
  a_bestMove :: BestMove
  a_principalVariation :: "string list"
  a_depth :: int
  a_confidence :: int
  a_analysisTime :: int

definition analyzeWithStockfish :: "rules \<Rightarrow> Draws \<Rightarrow> string \<Rightarrow> int \<Rightarrow> ChessAnalysis promise" where
  "analyzeWithStockfish R ds f depth =
     (case newChess R f of
        None \<Rightarrow> Rejected
      | Some chess \<Rightarrow>
          (case analyzePosition R ds f depth of
             Unsettled \<Rightarrow> Unsettled
           | Rejected \<Rightarrow> Rejected
           | Resolved stockfishResult \<Rightarrow>
               Resolved \<lparr> a_position = \<lparr> fen = f, turn = chessTurn chess \<rparr>,
                      a_evaluation = sr_evaluation stockfishResult,
                      a_bestMove = sr_bestMove stockfishResult,
                      a_principalVariation = sr_principalVariation stockfishResult,
                      a_depth = sr_depth stockfishResult,
                      a_confidence = min 98 (85 + depth),
                      a_analysisTime = sr_time stockfishResult \<rparr>))"

record BotMove =
  b_from :: string
  b_to :: string
  b_san :: string
  b_fen :: string
  b_promotion :: "string option"

text \<open>
  The numbers \<open>getStockfishMove\<close> draws: \<open>g_first\<close> for the test against 0.7 or 0.3,
  \<open>g_index\<close> for the random index, and the draws of the analysis it awaits.
\<close>

record MoveDraws =
  g_first :: rat
  g_index :: rat
  g_analysis :: Draws

text \<open>\<open>moves.find(move => move.from === best.from && move.to === best.to)\<close>.\<close>

definition findBest :: "BestMove \<Rightarrow> Move list \<Rightarrow> Move option" where
  "findBest best ms = find (\<lambda>move. mfrom move = bm_from best \<and> mto move = bm_to best) ms"

text \<open>\<open>a || b\<close> for values that are objects or \<open>undefined\<close>.\<close>

definition orElse :: "'a option \<Rightarrow> 'a option \<Rightarrow> 'a option" where
  "orElse a b = (case a of Some x \<Rightarrow> Some x | None \<Rightarrow> b)"

text \<open>
  The \<open>switch\<close> of \<open>getStockfishMove\<close>, which chooses \<open>selectedMove\<close> among the legal
  moves (\<open>candidates\<close>). It awaits the analysis where a tier asks for one; a value
  \<open>None\<close> is \<open>undefined\<close>. The four tiers are all the values of the type, so the
  \<open>default\<close> branch has no case.
\<close>

definition selectMove ::
    "rules \<Rightarrow> MoveDraws \<Rightarrow> string \<Rightarrow> difficulty \<Rightarrow> Move list \<Rightarrow> Move option promise" where
  "selectMove R gd f level candidates =
     (case level of
        Stockfish \<Rightarrow>
          (case analyzePosition R (g_analysis gd) f 18 of
             Unsettled \<Rightarrow> Unsettled
           | Rejected \<Rightarrow> Rejected
           | Resolved analysis \<Rightarrow>
               Resolved (orElse (findBest (sr_bestMove analysis) candidates) (nthOpt candidates 0)))
      | Advanced \<Rightarrow>
          (case analyzePosition R (g_analysis gd) f 12 of
             Unsettled \<Rightarrow> Unsettled
           | Rejected \<Rightarrow> Rejected
           | Resolved advancedAnalysis \<Rightarrow>
               Resolved (orElse (findBest (sr_bestMove advancedAnalysis) candidates)
                           (nthOpt candidates 0)))
      | Intermediate \<Rightarrow>
          (case analyzePosition R (g_analysis gd) f 8 of
             Unsettled \<Rightarrow> Unsettled
           | Rejected \<Rightarrow> Rejected
           | Resolved intAnalysis \<Rightarrow>
               (let topMoves = take 3 candidates in
                Resolved (if g_first gd < 7 / 10 then
                            orElse (findBest (sr_bestMove intAnalysis) candidates) (nthOpt topMoves 0)
                          else atFloor topMoves (g_index gd * of_nat (length topMoves)))))
      | Beginner \<Rightarrow>
          (if g_first gd < 3 / 10 then
             (case analyzePosition R (g_analysis gd) f 4 of
                Unsettled \<Rightarrow> Unsettled
              | Rejected \<Rightarrow> Rejected
              | Resolved begAnalysis \<Rightarrow>
                  Resolved (orElse (findBest (sr_bestMove begAnalysis) candidates)
                              (nthOpt candidates 0)))
           else Resolved (atFloor candidates (g_index gd * of_nat (length candidates)))))"

text \<open>
  \<open>getStockfishMove\<close>. The promise is resolved with the move, or with \<open>null\<close> (\<open>None\<close>)
  when the position has no legal move; it is rejected when \<open>load\<close> or \<open>move\<close> throws
  (\<open>move\<close> throws for \<open>undefined\<close>); and it is never settled when the awaited analysis
  is not.
\<close>

definition getStockfishMove ::
    "rules \<Rightarrow> MoveDraws \<Rightarrow> string \<Rightarrow> difficulty \<Rightarrow> BotMove option promise" where
  "getStockfishMove R gd f level =
     (case newChess R f of
        None \<Rightarrow> Rejected
      | Some chess \<Rightarrow>
          (let moves = chessMoves R chess in
           if length moves = 0 then Resolved None
           else
             (case selectMove R gd f level moves of
                Unsettled \<Rightarrow> Unsettled
              | Rejected \<Rightarrow> Rejected
              | Resolved None \<Rightarrow> Rejected
              | Resolved (Some selectedMove) \<Rightarrow>
                  (case chessMove R chess (requestOf selectedMove) of
                     None \<Rightarrow> Rejected
                   | Some (move, chess') \<Rightarrow>
                       Resolved (Some \<lparr> b_from = mfrom move, b_to = mto move, b_san = msan move,
                                        b_fen = chessFen R chess', b_promotion = mpromotion move \<rparr>)))))"

definition isLegalMove :: "rules \<Rightarrow> string \<Rightarrow> MoveRequest \<Rightarrow> bool" where
  "isLegalMove R f move =
     (case newChess R f of
        None \<Rightarrow> False
      | Some chess \<Rightarrow> (case chessMove R chess move of None \<Rightarrow> False | Some res \<Rightarrow> True))"

record MoveResult =
  mr_move :: Move
  mr_fen :: string
  mr_isGameOver :: bool
  mr_isCheck :: bool
  mr_isCheckmate :: bool
  mr_isStalemate :: bool
  mr_isDraw :: bool

text \<open>
  \<open>makeMove\<close> of the engine service. An illegal move makes \<open>chess.move\<close> throw, so the
  method never reaches its \<open>return null\<close>; the exception is \<open>None\<close>.
\<close>

definition engineMakeMove :: "rules \<Rightarrow> string \<Rightarrow> MoveRequest \<Rightarrow> MoveResult option" where
  "engineMakeMove R f move =
     (case newChess R f of
        None \<Rightarrow> None
      | Some chess \<Rightarrow>
          (case chessMove R chess move of
             None \<Rightarrow> None
           | Some (res, chess') \<Rightarrow>
               Some \<lparr> mr_move = res,
                      mr_fen = chessFen R chess',
                      mr_isGameOver = isGameOver R chess',
                      mr_isCheck = inCheck R (position chess'),
                      mr_isCheckmate = isCheckmate R chess',
                      mr_isStalemate = isStalemate R chess',
                      mr_isDraw = isDraw R chess' \<rparr>))"

text \<open>
  \<open>getGameStatus\<close>, the same code in \<open>EnhancedChessEngineService\<close> and in
  \<open>ChessEngineService\<close>.
\<close>

definition getGameStatus :: "rules \<Rightarrow> string \<Rightarrow> string option" where
  "getGameStatus R f =
     (case newChess R f of
        None \<Rightarrow> None
      | Some chess \<Rightarrow>
          Some (if isCheckmate R chess then (if chessTurn chess = ''w'' then ''0-1'' else ''1-0'')
                else if isStalemate R chess \<or> isDraw R chess then ''1/2-1/2''
                else ''active''))"

section \<open>ChessEngineService: the fallback evaluation\<close>



section \<open>Game routes\<close>

text \<open>
  A request body of \<open>POST game/move\<close>; a missing field is \<open>None\<close>. The reply carries the
  HTTP status next to the JSON fields. A handler returns the reply it sends, if it sends
  one (\<open>None\<close>: the handler waits for ever on a promise that is never settled, and the
  request gets no reply), and the store as the handler leaves it.
\<close>

record MakeMoveRequest =
  req_gameId :: "string option"
  req_move :: "MoveRequest option"

record Response =
  httpStatus :: nat
  success :: bool
  r_error :: "string option"
  r_game :: "ChessGame option"
  r_botMove :: "ChessMove option"

definition failure :: "nat \<Rightarrow> string \<Rightarrow> Response" where
  "failure code msg = \<lparr> httpStatus = code, success = False, r_error = Some msg,
                         r_game = None, r_botMove = None \<rparr>"

text \<open>
  The readings of \<open>new Date().toISOString()\<close> in \<open>makeMove\<close>, one for each place that
  takes one.
\<close>

record Clock =
  t_playerMove :: string
  t_playerEnd :: string
  t_botMove :: string
  t_botEnd :: string

text \<open>
  \<open>getGame\<close> hands out the object the store holds, and the routes assign to its fields:
  every such assignment shows in the store at once, under the key the object was found
  at, whether or not \<open>saveGame\<close> is reached afterwards.
\<close>

definition mutateGame :: "DataStore \<Rightarrow> string \<Rightarrow> ChessGame \<Rightarrow> DataStore" where
  "mutateGame d gameId game = d\<lparr> games := (games d)(gameId \<mapsto> game) \<rparr>"

definition falsy :: "string option \<Rightarrow> bool" where
  "falsy s \<longleftrightarrow> s = None \<or> s = Some []"

definition playerEntry :: "MoveResult \<Rightarrow> string \<Rightarrow> ChessMove" where
  "playerEntry moveResult now =
     \<lparr> m_from = mfrom (mr_move moveResult), m_to = mto (mr_move moveResult),
       m_san = msan (mr_move moveResult), m_fen = mr_fen moveResult,
       m_timestamp = now, isPlayerMove = True \<rparr>"

definition botEntry :: "BotMove \<Rightarrow> string \<Rightarrow> ChessMove" where
  "botEntry botMove now =
     \<lparr> m_from = b_from botMove, m_to = b_to botMove, m_san = b_san botMove,
       m_fen = b_fen botMove, m_timestamp = now, isPlayerMove = False \<rparr>"

text \<open>
  The part of \<open>makeMove\<close> after the player's move did not end the game: the bot's move.
  \<open>game\<close> already holds the player's move. When the bot's promise is rejected, or
  \<open>getGameStatus\<close> throws, the handler's \<open>catch\<close> replies with status 500; when the
  promise is never settled the handler sends nothing. Either way the session keeps what
  was assigned to it before.
\<close>

definition makeBotMove ::
    "rules \<Rightarrow> DataStore \<Rightarrow> string \<Rightarrow> ChessGame \<Rightarrow> MoveResult \<Rightarrow> MoveDraws \<Rightarrow> Clock
     \<Rightarrow> Response option \<times> DataStore" where
  "makeBotMove R d gameId game moveResult gd clk =
     (case getStockfishMove R gd (mr_fen moveResult) (difficulty (settings game)) of
        Unsettled \<Rightarrow> (None, mutateGame d gameId game)
      | Rejected \<Rightarrow> (Some (failure 500 ''Failed to make move''), mutateGame d gameId game)
      | Resolved None \<Rightarrow>
          (Some \<lparr> httpStatus = 200, success = True, r_error = None, r_game = Some game,
                  r_botMove = None \<rparr>,
           saveGame (mutateGame d gameId game) game)
      | Resolved (Some botMove) \<Rightarrow>
          (let botMoveEntry = botEntry botMove (t_botMove clk);
               game1 = game\<lparr> moves := moves game @ [botMoveEntry],
                              currentPosition := \<lparr> fen = b_fen botMove,
                                                   turn = fenTurn (b_fen botMove) \<rparr> \<rparr>
           in case getGameStatus R (b_fen botMove) of
                None \<Rightarrow> (Some (failure 500 ''Failed to make move''), mutateGame d gameId game1)
              | Some gameStatus \<Rightarrow>
                  (let game2 =
                         (if gameStatus \<noteq> ''active'' then
                            game1\<lparr> status := (if includesStr gameStatus ''1/2'' then Draw
                                                 else Checkmate),
                                    endTime := Some (t_botEnd clk),
                                    result := Some gameStatus \<rparr>
                          else game1)
                   in (Some \<lparr> httpStatus = 200, success = True, r_error = None,
                               r_game = Some game2, r_botMove = Some botMoveEntry \<rparr>,
                       saveGame (mutateGame d gameId game2) game2))))"

text \<open>\<open>makeMove\<close> of the game routes: the reply and the store afterwards.\<close>

definition makeMove ::
    "rules \<Rightarrow> DataStore \<Rightarrow> MakeMoveRequest \<Rightarrow> MoveDraws \<Rightarrow> Clock
     \<Rightarrow> Response option \<times> DataStore" where
  "makeMove R d req gd clk =
     (case (req_gameId req, req_move req) of
        (Some gameId, Some move) \<Rightarrow>
          (if falsy (Some gameId) then (Some (failure 400 ''Game ID and move are required''), d)
           else
             (case getGame d gameId of
                None \<Rightarrow> (Some (failure 404 ''Game not found''), d)
              | Some game \<Rightarrow>
                  (if status game \<noteq> Active then (Some (failure 400 ''Game is not active''), d)
                   else if \<not> isLegalMove R (fen (currentPosition game)) move then
                     (Some (failure 400 ''Illegal move''), d)
                   else
                     (case engineMakeMove R (fen (currentPosition game)) move of
                        None \<Rightarrow> (Some (failure 500 ''Failed to make move''), d)
                      | Some moveResult \<Rightarrow>
                          (let playerMoveEntry = playerEntry moveResult (t_playerMove clk);
                               game1 = game\<lparr> moves := moves game @ [playerMoveEntry],
                                              currentPosition :=
                                                \<lparr> fen = mr_fen moveResult,
                                                  turn = fenTurn (mr_fen moveResult) \<rparr> \<rparr>
                           in if mr_isGameOver moveResult then
                                (let game2 = game1\<lparr> status :=
                                                       (if mr_isCheckmate moveResult then Checkmate
                                                        else if mr_isStalemate moveResult then Stalemate
                                                        else Draw),
                                                     endTime := Some (t_playerEnd clk) \<rparr>
                                 in case getGameStatus R (mr_fen moveResult) of
                                      None \<Rightarrow> (Some (failure 500 ''Failed to make move''),
                                                mutateGame d gameId game2)
                                    | Some res \<Rightarrow>
                                        (let game3 = game2\<lparr> result := Some res \<rparr>
                                         in (Some \<lparr> httpStatus = 200, success = True, r_error = None,
                                                     r_game = Some game3, r_botMove = None \<rparr>,
                                             saveGame (mutateGame d gameId game3) game3)))
                              else makeBotMove R d gameId game1 moveResult gd clk)))))
      | _ \<Rightarrow> (Some (failure 400 ''Game ID and move are required''), d))"

text \<open>\<open>resignGame\<close>; \<open>now\<close> is the reading of the clock for the end time.\<close>

definition resignGame :: "DataStore \<Rightarrow> string \<Rightarrow> string \<Rightarrow> Response option \<times> DataStore" where
  "resignGame d gameId now =
     (case getGame d gameId of
        None \<Rightarrow> (Some (failure 404 ''Game not found''), d)
      | Some game \<Rightarrow>
          (if status game \<noteq> Active then (Some (failure 400 ''Game is not active''), d)
           else
             (let game1 = game\<lparr> status := Resignation,
                                 endTime := Some now,
                                 result := Some (if playerColor game = White then ''0-1''
                                                 else ''1-0'') \<rparr>
              in (Some \<lparr> httpStatus = 200, success = True, r_error = None, r_game = Some game1,
                          r_botMove = None \<rparr>,
                  saveGame (mutateGame d gameId game1) game1))))"

subsection \<open>Creating a game\<close>

record CreateGameRequest =
  req_settings :: "GameSettings option"

definition startingFen :: string where
  "startingFen = ''rnbqkbnr/pppppppp/8/8/8/8/PPPPPPPP/RNBQKBNR w KQkq - 0 1''"

text \<open>
  \<open>validateGameSettings\<close>. The checks for missing fields and for the names of the
  difficulty and the colour are decided by the types here; the ranges remain.
\<close>

definition validateGameSettings :: "GameSettings \<Rightarrow> string option" where
  "validateGameSettings s =
     (if tc_initial s < 60 \<or> tc_initial s > 3600 then
        Some ''Initial time must be between 1 and 60 minutes''
      else if tc_increment s < 0 \<or> tc_increment s > 60 then
        Some ''Increment must be between 0 and 60 seconds''
      else None)"

text \<open>
  What \<open>createGame\<close> takes from its environment: the number drawn for a random colour, the
  id that \<open>generateGameId\<close> builds from the clock and the generator, the draws of the
  bot's opening move, and the clock readings for the start time and the bot's entry.
\<close>

record CreateInputs =
  c_colorDraw :: rat
  c_newId :: string
  c_botDraws :: MoveDraws
  c_startTime :: string
  c_botTime :: string

definition createGame ::
    "rules \<Rightarrow> DataStore \<Rightarrow> CreateGameRequest \<Rightarrow> CreateInputs
     \<Rightarrow> Response option \<times> DataStore" where
  "createGame R d req inp =
     (case req_settings req of
        None \<Rightarrow> (Some (failure 400 ''Game settings are required''), d)
      | Some s \<Rightarrow>
          (case validateGameSettings s of
             Some validationError \<Rightarrow> (Some (failure 400 validationError), d)
           | None \<Rightarrow>
               (let pc = (case colorSetting s of
                            ChooseRandom \<Rightarrow> (if c_colorDraw inp < 1 / 2 then White else Black)
                          | ChooseWhite \<Rightarrow> White
                          | ChooseBlack \<Rightarrow> Black);
                    game = \<lparr> gid = c_newId inp, playerColor = pc,
                             currentPosition = \<lparr> fen = startingFen, turn = ''w'' \<rparr>,
                             moves = [], status = Active, settings = s,
                             startTime = c_startTime inp, endTime = None, result = None \<rparr>
                in if pc = Black then
                     (case getStockfishMove R (c_botDraws inp) startingFen (difficulty s) of
                        Unsettled \<Rightarrow> (None, d)
                      | Rejected \<Rightarrow> (Some (failure 500 ''Failed to create game''), d)
                      | Resolved None \<Rightarrow>
                          (Some \<lparr> httpStatus = 200, success = True, r_error = None,
                                  r_game = Some game, r_botMove = None \<rparr>, saveGame d game)
                      | Resolved (Some botMove) \<Rightarrow>
                          (let game1 = game\<lparr> moves := moves game @ [botEntry botMove (c_botTime inp)],
                                              currentPosition := \<lparr> fen = b_fen botMove, turn = ''b'' \<rparr> \<rparr>
                           in (Some \<lparr> httpStatus = 200, success = True, r_error = None,
                                       r_game = Some game1, r_botMove = None \<rparr>, saveGame d game1)))
                   else (Some \<lparr> httpStatus = 200, success = True, r_error = None,
                                r_game = Some game, r_botMove = None \<rparr>, saveGame d game))))"

subsection \<open>Sessions under a sequence of operations\<close>

datatype operation =
    MoveOp MakeMoveRequest MoveDraws Clock
  | ResignOp string string

fun applyOperation :: "rules \<Rightarrow> DataStore \<Rightarrow> operation \<Rightarrow> DataStore" where
  "applyOperation R d (MoveOp req gd clk) = snd (makeMove R d req gd clk)"
| "applyOperation R d (ResignOp gameId now) = snd (resignGame d gameId now)"

text \<open>
  The store keeps every game under its own id: \<open>saveGame\<close> is the only writer of the map
  and uses \<open>game.id\<close> as the key.
\<close>

definition keyedById :: "DataStore \<Rightarrow> bool" where
  "keyedById d \<longleftrightarrow> (\<forall>k game. games d k = Some game \<longrightarrow> gid game = k)"

definition terminal :: "status \<Rightarrow> bool" where
  "terminal s \<longleftrightarrow> s = Checkmate \<or> s = Stalemate \<or> s = Draw \<or> s = Resignation"

text \<open>
  Everything that changes the store of games: the creation of a game, a move, a
  resignation. The stores the service can hold are those reached from the initial store.
\<close>

datatype event =
    CreateEv CreateGameRequest CreateInputs
  | OpEv operation

fun applyEvent :: "rules \<Rightarrow> DataStore \<Rightarrow> event \<Rightarrow> DataStore" where
  "applyEvent R d (CreateEv req inp) = snd (createGame R d req inp)"
| "applyEvent R d (OpEv op) = applyOperation R d op"

definition reachableStore :: "rules \<Rightarrow> event list \<Rightarrow> DataStore" where
  "reachableStore R evs = foldl (applyEvent R) initialStore evs"

section \<open>What the specification asks of the mobility score\<close>

text \<open>\<open>xs.join(sep)\<close>, and a position with its side-to-move field set to \<open>t\<close>.\<close>

fun joinWith :: "string \<Rightarrow> string list \<Rightarrow> string" where
  "joinWith sep [] = []"
| "joinWith sep [x] = x"
| "joinWith sep (x # y # ys) = x @ sep @ joinWith sep (y # ys)"

definition withTurn :: "string \<Rightarrow> string \<Rightarrow> string" where
  "withTurn t f =
     (case splitOn CHR '' '' f of
        placement # side # rest \<Rightarrow> joinWith '' '' (placement # t # rest)
      | _ \<Rightarrow> f)"

text \<open>
  The mobility sub-score in the specification's words: White's number of legal moves less
  Black's, times the constant of the code (2), White positive.
\<close>

definition mobilitySpec :: "rules \<Rightarrow> string \<Rightarrow> int" where
  "mobilitySpec R f =
     (int (length (legalMoves R (withTurn ''w'' f))) - int (length (legalMoves R (withTurn ''b'' f)))) * 2"

section \<open>A king and pawn ending as test data\<close>

text \<open>
  White: king d6, pawn e7. Black: king f7, to move. Black plays Ke8, and White can then
  stalemate with Ke6. The positions of this ending:
  \<^item> \<open>posStart\<close>: Black to move, king on f7;
  \<^item> \<open>posAfterKe8\<close>: after Ke8, White to move;
  \<^item> \<open>posStalemate\<close>: after Ke6, Black to move and stalemated;
  \<^item> \<open>posAfterKe5\<close>: after Ke5 instead, Black to move;
  \<^item> \<open>posBareKings\<close>: after Ke5 Kxe7, White to move, only the kings left;
  \<^item> \<open>posAfterKe4\<close>, \<open>posAfterKe4Kd8\<close>: the bare kings after Ke4, and after Ke4 Kd8;
  \<^item> \<open>posAfterKe8Black\<close>, \<open>posStalemateWhite\<close>: the second and third with the other side
    to move.
\<close>

definition posStart :: string where
  "posStart = ''8/4Pk2/3K4/8/8/8/8/8 b - - 0 1''"

definition posAfterKe8 :: string where
  "posAfterKe8 = ''4k3/4P3/3K4/8/8/8/8/8 w - - 1 2''"

definition posStalemate :: string where
  "posStalemate = ''4k3/4P3/4K3/8/8/8/8/8 b - - 2 2''"

definition posAfterKe5 :: string where
  "posAfterKe5 = ''4k3/4P3/8/4K3/8/8/8/8 b - - 2 2''"

definition posBareKings :: string where
  "posBareKings = ''8/4k3/8/4K3/8/8/8/8 w - - 0 3''"

definition posAfterKe4 :: string where
  "posAfterKe4 = ''8/4k3/8/8/4K3/8/8/8 b - - 1 3''"

definition posAfterKe4Kd8 :: string where
  "posAfterKe4Kd8 = ''3k4/8/8/8/4K3/8/8/8 w - - 2 4''"

definition posAfterKe8Black :: string where
  "posAfterKe8Black = ''4k3/4P3/3K4/8/8/8/8/8 b - - 1 2''"

definition posStalemateWhite :: string where
  "posStalemateWhite = ''4k3/4P3/4K3/8/8/8/8/8 w - - 2 2''"

definition mv :: "string \<Rightarrow> string \<Rightarrow> string \<Rightarrow> string \<Rightarrow> Move" where
  "mv a b s f = \<lparr> mfrom = a, mto = b, msan = s, mpromotion = None, mafter = f \<rparr>"

text \<open>
  The legal moves of these positions, in the order the library generates them (squares
  from a8 to h1; a king's steps clockwise from the upper left).
\<close>

definition endingMoves :: "(string \<times> Move list) list" where
  "endingMoves =
     [(posStart,
        [mv ''f7'' ''e8'' ''Ke8'' posAfterKe8,
         mv ''f7'' ''g8'' ''Kg8'' ''6k1/4P3/3K4/8/8/8/8/8 w - - 1 2'',
         mv ''f7'' ''g7'' ''Kg7'' ''8/4P1k1/3K4/8/8/8/8/8 w - - 1 2'',
         mv ''f7'' ''g6'' ''Kg6'' ''8/4P3/3K2k1/8/8/8/8/8 w - - 1 2'',
         mv ''f7'' ''f6'' ''Kf6'' ''8/4P3/3K1k2/8/8/8/8/8 w - - 1 2'']),
      (posAfterKe8,
        [mv ''d6'' ''c7'' ''Kc7'' ''4k3/2K1P3/8/8/8/8/8/8 b - - 2 2'',
         mv ''d6'' ''e6'' ''Ke6'' posStalemate,
         mv ''d6'' ''e5'' ''Ke5'' posAfterKe5,
         mv ''d6'' ''d5'' ''Kd5'' ''4k3/4P3/8/3K4/8/8/8/8 b - - 2 2'',
         mv ''d6'' ''c5'' ''Kc5'' ''4k3/4P3/8/2K5/8/8/8/8 b - - 2 2'',
         mv ''d6'' ''c6'' ''Kc6'' ''4k3/4P3/2K5/8/8/8/8/8 b - - 2 2'']),
      (posStalemate, []),
      (posAfterKe5,
        [mv ''e8'' ''f7'' ''Kf7'' ''8/4Pk2/8/4K3/8/8/8/8 w - - 3 3'',
         mv ''e8'' ''e7'' ''Kxe7'' posBareKings,
         mv ''e8'' ''d7'' ''Kd7'' ''8/3kP3/8/4K3/8/8/8/8 w - - 3 3'']),
      (posBareKings,
        [mv ''e5'' ''f5'' ''Kf5'' ''8/4k3/8/5K2/8/8/8/8 b - - 1 3'',
         mv ''e5'' ''f4'' ''Kf4'' ''8/4k3/8/8/5K2/8/8/8 b - - 1 3'',
         mv ''e5'' ''e4'' ''Ke4'' posAfterKe4,
         mv ''e5'' ''d4'' ''Kd4'' ''8/4k3/8/8/3K4/8/8/8 b - - 1 3'',
         mv ''e5'' ''d5'' ''Kd5'' ''8/4k3/8/3K4/8/8/8/8 b - - 1 3'']),
      (posAfterKe4,
        [mv ''e7'' ''d8'' ''Kd8'' posAfterKe4Kd8,
         mv ''e7'' ''e8'' ''Ke8'' ''4k3/8/8/8/4K3/8/8/8 w - - 2 4'',
         mv ''e7'' ''f8'' ''Kf8'' ''5k2/8/8/8/4K3/8/8/8 w - - 2 4'',
         mv ''e7'' ''f7'' ''Kf7'' ''8/5k2/8/8/4K3/8/8/8 w - - 2 4'',
         mv ''e7'' ''f6'' ''Kf6'' ''8/8/5k2/8/4K3/8/8/8 w - - 2 4'',
         mv ''e7'' ''e6'' ''Ke6'' ''8/8/4k3/8/4K3/8/8/8 w - - 2 4'',
         mv ''e7'' ''d6'' ''Kd6'' ''8/8/3k4/8/4K3/8/8/8 w - - 2 4'',
         mv ''e7'' ''d7'' ''Kd7'' ''8/3k4/8/8/4K3/8/8/8 w - - 2 4'']),
      (posAfterKe4Kd8,
        [mv ''e4'' ''d5'' ''Kd5'' ''3k4/8/8/3K4/8/8/8/8 b - - 3 4'',
         mv ''e4'' ''e5'' ''Ke5'' ''3k4/8/8/4K3/8/8/8/8 b - - 3 4'',
         mv ''e4'' ''f5'' ''Kf5'' ''3k4/8/8/5K2/8/8/8/8 b - - 3 4'',
         mv ''e4'' ''f4'' ''Kf4'' ''3k4/8/8/8/5K2/8/8/8 b - - 3 4'',
         mv ''e4'' ''f3'' ''Kf3'' ''3k4/8/8/8/8/5K2/8/8 b - - 3 4'',
         mv ''e4'' ''e3'' ''Ke3'' ''3k4/8/8/8/8/4K3/8/8 b - - 3 4'',
         mv ''e4'' ''d3'' ''Kd3'' ''3k4/8/8/8/8/3K4/8/8 b - - 3 4'',
         mv ''e4'' ''d4'' ''Kd4'' ''3k4/8/8/8/3K4/8/8/8 b - - 3 4'']),
      (posAfterKe8Black,
        [mv ''e8'' ''f7'' ''Kf7'' ''8/4Pk2/3K4/8/8/8/8/8 w - - 2 3'']),
      (posStalemateWhite,
        [mv ''e6'' ''f6'' ''Kf6'' ''4k3/4P3/5K2/8/8/8/8/8 b - - 3 2'',
         mv ''e6'' ''f5'' ''Kf5'' ''4k3/4P3/8/5K2/8/8/8/8 b - - 3 2'',
         mv ''e6'' ''e5'' ''Ke5'' ''4k3/4P3/8/4K3/8/8/8/8 b - - 3 2'',
         mv ''e6'' ''d5'' ''Kd5'' ''4k3/4P3/8/3K4/8/8/8/8 b - - 3 2'',
         mv ''e6'' ''d6'' ''Kd6'' ''4k3/4P3/3K4/8/8/8/8/8 b - - 3 2''])]"

text \<open>Only kings are on the board.\<close>

definition bareKings :: "string \<Rightarrow> bool" where
  "bareKings f =
     list_all (\<lambda>sq. case sq of None \<Rightarrow> True | Some p \<Rightarrow> ptype p = CHR ''k'')
       (concat (boardOf f))"

text \<open>
  The oracle's answers on these positions. None of them has a king in check, a full
  fifty-move counter or a repetition; the positions with bare kings are drawn by
  insufficient material. The table lists the positions the scenarios visit; a string
  outside it is not accepted. Each position is written the way \<open>fen()\<close> writes it (none
  has an en-passant square), so \<open>fen()\<close> reports the text that was loaded.
\<close>

definition endingRules :: rules where
  "endingRules =
     \<lparr> validFen = (\<lambda>f. f \<in> set (map fst endingMoves)),
       fenText = (\<lambda>f. f),
       legalMoves = (\<lambda>f. case map_of endingMoves f of Some ms \<Rightarrow> ms | None \<Rightarrow> []),
       inCheck = (\<lambda>f. False),
       insufficientMaterial = bareKings,
       fiftyMoves = (\<lambda>f. False),
       threefold = (\<lambda>h. False) \<rparr>"

definition endingSettings :: GameSettings where
  "endingSettings = \<lparr> tc_initial = 600, tc_increment = 5, difficulty = Beginner,
                        colorSetting = ChooseBlack \<rparr>"

text \<open>A session in which the player has Black and the ending above is on the board.\<close>

definition endingGame :: ChessGame where
  "endingGame =
     \<lparr> gid = ''game_1'', playerColor = Black,
       currentPosition = \<lparr> fen = posStart, turn = ''b'' \<rparr>,
       moves = [], status = Active, settings = endingSettings,
       startTime = ''2024-01-01T10:00:00.000Z'', endTime = None, result = None \<rparr>"

definition endingStore :: DataStore where
  "endingStore = \<lparr> games = [''game_1'' \<mapsto> endingGame], stats = initialStats \<rparr>"

definition zeroDraws :: Draws where
  "zeroDraws = \<lparr> d_noise = 0, d_pv = (\<lambda>i. 0), d_nodes = 0, d_time = 0, d_nps = 0 \<rparr>"

text \<open>
  Draws that make the beginner bot skip the analysis (1/2 is not below 0.3) and pick the
  move at index \<open>\<lfloor>1/4 \<cdot> 6\<rfloor> = 1\<close>.
\<close>

definition endingDraws :: MoveDraws where
  "endingDraws = \<lparr> g_first = 1 / 2, g_index = 1 / 4, g_analysis = zeroDraws \<rparr>"

definition endingClock :: Clock where
  "endingClock = \<lparr> t_playerMove = ''2024-01-01T10:00:01.000Z'',
                    t_playerEnd = ''2024-01-01T10:00:01.001Z'',
                    t_botMove = ''2024-01-01T10:00:02.000Z'',
                    t_botEnd = ''2024-01-01T10:00:02.001Z'' \<rparr>"

definition moveKe8 :: MakeMoveRequest where
  "moveKe8 = \<lparr> req_gameId = Some ''game_1'',
               req_move = Some \<lparr> r_from = ''f7'', r_to = ''e8'', r_promotion = None \<rparr> \<rparr>"

text \<open>The same session after the player, who has Black, resigned; and a store whose rating is close to the lower bound.\<close>

definition resignedGame :: ChessGame where
  "resignedGame = endingGame\<lparr> status := Resignation,
                                endTime := Some ''2024-01-01T10:05:00.000Z'',
                                result := Some ''1-0'' \<rparr>"

definition lowStore :: DataStore where
  "lowStore = \<lparr> games = Map.empty, stats = initialStats\<lparr> currentRating := 805 \<rparr> \<rparr>"

text \<open>Draws for the variation loop: 1/2 in the first iteration, 0 afterwards; and 1/2 throughout.\<close>

definition pvDraws :: Draws where
  "pvDraws = zeroDraws\<lparr> d_pv := (\<lambda>i. if i = 1 then 1 / 2 else 0) \<rparr>"

definition halfDraws :: Draws where
  "halfDraws = zeroDraws\<lparr> d_pv := (\<lambda>i. 1 / 2) \<rparr>"

text \<open>An illegal request in the starting position of the ending: f8 is attacked by the pawn.\<close>

definition ke8 :: MoveRequest where
  "ke8 = \<lparr> r_from = ''f7'', r_to = ''e8'', r_promotion = None \<rparr>"

definition illegalKf8 :: MoveRequest where
  "illegalKf8 = \<lparr> r_from = ''f7'', r_to = ''f8'', r_promotion = None \<rparr>"

text \<open>A store that holds the resigned session.\<close>

definition finishedStore :: DataStore where
  "finishedStore = \<lparr> games = [''game_1'' \<mapsto> resignedGame], stats = initialStats \<rparr>"


section \<open>A position with an en-passant capture as test data\<close>

text \<open>
  White: king e1, pawn e2. Black: king e8, pawn d4. White plays e2-e4, and Black, to
  move, can capture the pawn on e3 in passing: \<open>fen()\<close> names the square e3.
  \<^item> \<open>posBeforeE4\<close>: White to move, the pawn still on e2;
  \<^item> \<open>posEnPassant\<close>: after e4, Black to move.

  The legal moves, in the library's order (a pawn's pushes before its captures). As
  before, the table lists the positions the scenarios visit, written the way \<open>fen()\<close>
  writes them, and a string outside it is not accepted. In particular \<open>posEnPassant\<close>
  with White to move is not: the library's validation refuses an en-passant square on the
  third rank when White is to move.
\<close>

definition posBeforeE4 :: string where
  "posBeforeE4 = ''4k3/8/8/8/3p4/8/4P3/4K3 w - - 0 1''"

definition posEnPassant :: string where
  "posEnPassant = ''4k3/8/8/8/3pP3/8/8/4K3 b - e3 0 1''"

definition enPassantMoves :: "(string \<times> Move list) list" where
  "enPassantMoves =
     [(posBeforeE4,
        [mv ''e2'' ''e3'' ''e3'' ''4k3/8/8/8/3p4/4P3/8/4K3 b - - 0 1'',
         mv ''e2'' ''e4'' ''e4'' posEnPassant,
         mv ''e1'' ''d2'' ''Kd2'' ''4k3/8/8/8/3p4/8/3KP3/8 b - - 1 1'',
         mv ''e1'' ''f2'' ''Kf2'' ''4k3/8/8/8/3p4/8/4PK2/8 b - - 1 1'',
         mv ''e1'' ''f1'' ''Kf1'' ''4k3/8/8/8/3p4/8/4P3/5K2 b - - 1 1'',
         mv ''e1'' ''d1'' ''Kd1'' ''4k3/8/8/8/3p4/8/4P3/3K4 b - - 1 1'']),
      (posEnPassant,
        [mv ''e8'' ''f8'' ''Kf8'' ''5k2/8/8/8/3pP3/8/8/4K3 w - - 1 2'',
         mv ''e8'' ''f7'' ''Kf7'' ''8/5k2/8/8/3pP3/8/8/4K3 w - - 1 2'',
         mv ''e8'' ''e7'' ''Ke7'' ''8/4k3/8/8/3pP3/8/8/4K3 w - - 1 2'',
         mv ''e8'' ''d7'' ''Kd7'' ''8/3k4/8/8/3pP3/8/8/4K3 w - - 1 2'',
         mv ''e8'' ''d8'' ''Kd8'' ''3k4/8/8/8/3pP3/8/8/4K3 w - - 1 2'',
         mv ''d4'' ''d3'' ''d3'' ''4k3/8/8/8/4P3/3p4/8/4K3 w - - 0 2'',
         mv ''d4'' ''e3'' ''dxe3'' ''4k3/8/8/8/8/4p3/8/4K3 w - - 0 2''])]"

definition enPassantRules :: rules where
  "enPassantRules =
     \<lparr> validFen = (\<lambda>f. f \<in> set (map fst enPassantMoves)),
       fenText = (\<lambda>f. f),
       legalMoves = (\<lambda>f. case map_of enPassantMoves f of Some ms \<Rightarrow> ms | None \<Rightarrow> []),
       inCheck = (\<lambda>f. False),
       insufficientMaterial = (\<lambda>f. False),
       fiftyMoves = (\<lambda>f. False),
       threefold = (\<lambda>h. False) \<rparr>"

text \<open>
  Draws with which every tier asks for the analysis (0 is below 0.3 and below 0.7), and
  draws with which the beginner tier picks at random (index \<open>\<lfloor>6/7 \<cdot> 7\<rfloor> = 6\<close>).
\<close>

definition analysisDraws :: MoveDraws where
  "analysisDraws = \<lparr> g_first = 0, g_index = 0, g_analysis = zeroDraws \<rparr>"

definition randomDraws :: MoveDraws where
  "randomDraws = \<lparr> g_first = 1 / 2, g_index = 6 / 7, g_analysis = zeroDraws \<rparr>"

text \<open>A session in which the player has White against the advanced bot, before e2-e4.\<close>

definition enPassantGame :: ChessGame where
  "enPassantGame =
     \<lparr> gid = ''game_2'', playerColor = White,
       currentPosition = \<lparr> fen = posBeforeE4, turn = ''w'' \<rparr>,
       moves = [], status = Active,
       settings = \<lparr> tc_initial = 600, tc_increment = 5, difficulty = Advanced,
                    colorSetting = ChooseWhite \<rparr>,
       startTime = ''2024-01-01T11:00:00.000Z'', endTime = None, result = None \<rparr>"

definition enPassantStore :: DataStore where
  "enPassantStore = \<lparr> games = [''game_2'' \<mapsto> enPassantGame], stats = initialStats \<rparr>"

definition moveE4 :: MakeMoveRequest where
  "moveE4 = \<lparr> req_gameId = Some ''game_2'',
              req_move = Some \<lparr> r_from = ''e2'', r_to = ''e4'', r_promotion = None \<rparr> \<rparr>"
section \<open>Rating update\<close>

lemma clampRating_bounds: "800 \<le> clampRating r \<and> clampRating r \<le> 2400"
  by (simp add: clampRating_def)

lemma saveGame_finished_bounds:
  "status game \<noteq> Active \<Longrightarrow> 800 \<le> ratingOf (saveGame d game) \<and> ratingOf (saveGame d game) \<le> 2400"
  by (simp add: saveGame_def ratingOf_def Let_def)

lemma saveGame_active_rating:
  "status game = Active \<Longrightarrow> ratingOf (saveGame d game) = ratingOf d"
  by (simp add: saveGame_def ratingOf_def Let_def)

lemma saveGame_keeps_bounds:
  "800 \<le> ratingOf d \<and> ratingOf d \<le> 2400 \<Longrightarrow>
   800 \<le> ratingOf (saveGame d game) \<and> ratingOf (saveGame d game) \<le> 2400"
  by (cases "status game = Active") (simp_all add: saveGame_active_rating saveGame_finished_bounds)

lemma foldl_saveGame_bounds:
  "800 \<le> ratingOf d \<and> ratingOf d \<le> 2400 \<Longrightarrow>
   800 \<le> ratingOf (foldl saveGame d gs) \<and> ratingOf (foldl saveGame d gs) \<le> 2400"
proof (induction gs arbitrary: d)
  case Nil
  then show ?case by simp
next
  case (Cons g gs)
  have "800 \<le> ratingOf (saveGame d g) \<and> ratingOf (saveGame d g) \<le> 2400"
    using Cons.prems by (rule saveGame_keeps_bounds)
  then show ?case using Cons.IH by simp
qed

lemma saveGame_rating_delta:
  assumes "status game \<noteq> Active" and "gameOutcome game = Some oc"
  shows "ratingOf (saveGame d game) = clampRating (ratingOf d + ratingDelta oc)"
proof (cases oc)
  case Win
  with assms show ?thesis
    by (auto simp: saveGame_def ratingOf_def clampRating_def gameOutcome_def Let_def
             split: if_splits)
next
  case Drawn
  with assms show ?thesis
    by (auto simp: saveGame_def ratingOf_def clampRating_def gameOutcome_def Let_def
             split: if_splits)
next
  case Loss
  with assms show ?thesis
    by (auto simp: saveGame_def ratingOf_def clampRating_def gameOutcome_def Let_def
             split: if_splits)
qed

text \<open>
  C1. When a finished game (status no longer active) is saved and its stored result
  together with the player's side gives a win, a draw or a loss, the new rating is the old
  one plus 20, plus 5 or minus 15, clamped to 800..2400; and after this update followed by
  the saving of any further sequence of games the rating lies within 800..2400.
\<close>

theorem saveGame_rating_update:
  assumes "status game \<noteq> Active" and "gameOutcome game = Some oc"
  shows "ratingOf (saveGame d game) = max 800 (min 2400 (ratingOf d + ratingDelta oc))
       \<and> (\<forall>gs. 800 \<le> ratingOf (foldl saveGame (saveGame d game) gs)
              \<and> ratingOf (foldl saveGame (saveGame d game) gs) \<le> 2400)"
proof -
  have "ratingOf (saveGame d game) = max 800 (min 2400 (ratingOf d + ratingDelta oc))"
    using saveGame_rating_delta [OF assms] by (simp add: clampRating_def)
  moreover have "800 \<le> ratingOf (saveGame d game) \<and> ratingOf (saveGame d game) \<le> 2400"
    using assms(1) by (rule saveGame_finished_bounds)
  then have "\<forall>gs. 800 \<le> ratingOf (foldl saveGame (saveGame d game) gs)
              \<and> ratingOf (foldl saveGame (saveGame d game) gs) \<le> 2400"
    using foldl_saveGame_bounds by blast
  ultimately show ?thesis by blast
qed


theorem saveGame_rating_update_witness:
  "status resignedGame \<noteq> Active \<and> gameOutcome resignedGame = Some Loss
   \<and> ratingOf (saveGame lowStore resignedGame) = 800
   \<and> 800 \<le> ratingOf (foldl saveGame (saveGame lowStore resignedGame) [resignedGame, resignedGame])
   \<and> ratingOf (foldl saveGame (saveGame lowStore resignedGame) [resignedGame, resignedGame]) \<le> 2400"
proof -
  have h1: "status resignedGame \<noteq> Active"
    by (simp add: resignedGame_def)
  have h2: "gameOutcome resignedGame = Some Loss"
    by (simp add: gameOutcome_def resignedGame_def endingGame_def)
  have r: "ratingOf lowStore = 805"
    by (simp add: ratingOf_def lowStore_def)
  note t = saveGame_rating_update [OF h1 h2, of lowStore]
  have a: "ratingOf (saveGame lowStore resignedGame) = 800"
    using t r by simp
  have b: "800 \<le> ratingOf (foldl saveGame (saveGame lowStore resignedGame) [resignedGame, resignedGame])
         \<and> ratingOf (foldl saveGame (saveGame lowStore resignedGame) [resignedGame, resignedGame]) \<le> 2400"
    using t by blast
  show ?thesis
    using h1 h2 a b by blast
qed

section \<open>The evaluation function\<close>

subsection \<open>Positions with White to move are reloaded unchanged\<close>

text \<open>
  The lemmas of this section are about positions \<open>f\<close> written the way \<open>fen()\<close> writes
  them: \<open>fenText R f = f\<close>.
\<close>

lemma replaceFirst_at_first:
  "sep \<notin> set pre \<Longrightarrow> replaceFirst (sep # p) rep (pre @ (sep # p) @ post) = pre @ rep @ post"
  by (induction pre) auto

lemma flipTurn_white:
  assumes "CHR '' '' \<notin> set pre"
  shows "flipTurn (pre @ '' w '' @ post) = pre @ '' w '' @ post"
proof -
  have "replaceFirst '' w '' '' b '' (pre @ '' w '' @ post) = pre @ '' b '' @ post"
    using replaceFirst_at_first [OF assms, of "''w ''" "'' b ''" post] by simp
  moreover have "replaceFirst '' b '' '' w '' (pre @ '' b '' @ post) = pre @ '' w '' @ post"
    using replaceFirst_at_first [OF assms, of "''b ''" "'' w ''" post] by simp
  ultimately show ?thesis by (simp add: flipTurn_def)
qed

lemma splitOn_first:
  "sep \<notin> set pre \<Longrightarrow> splitOn sep (pre @ sep # rest) = pre # splitOn sep rest"
  by (induction pre) auto

lemma splitOn_nonempty: "splitOn sep s \<noteq> []"
  by (induction s) (auto split: list.splits)

lemma fenTurn_white:
  assumes "CHR '' '' \<notin> set pre"
  shows "fenTurn (pre @ '' w '' @ post) = ''w''"
proof -
  have "splitOn CHR '' '' (pre @ '' w '' @ post) = pre # splitOn CHR '' '' (''w '' @ post)"
    using splitOn_first [OF assms, of "''w '' @ post"] by simp
  moreover have "splitOn CHR '' '' (''w '' @ post) = ''w'' # splitOn CHR '' '' post"
    by simp
  ultimately show ?thesis by (simp add: fenTurn_def)
qed

lemma evaluateMobility_unflipped:
  assumes "flipTurn f = f" and "validFen R f" and "fenText R f = f"
  shows "evaluateMobility R \<lparr> position = f, earlier = h \<rparr>
         = Some (0, \<lparr> position = f, earlier = [] \<rparr>)"
  using assms
  by (simp add: evaluateMobility_def chessLoad_def chessFen_def chessMoves_def Let_def)

lemma evaluateMobility_white_to_move:
  assumes "CHR '' '' \<notin> set pre" and "validFen R (pre @ '' w '' @ post)"
      and "fenText R (pre @ '' w '' @ post) = pre @ '' w '' @ post"
  shows "evaluateMobility R \<lparr> position = pre @ '' w '' @ post, earlier = h \<rparr>
         = Some (0, \<lparr> position = pre @ '' w '' @ post, earlier = [] \<rparr>)"
  using flipTurn_white [OF assms(1)] assms(2,3) by (rule evaluateMobility_unflipped)

lemma terminal_evaluation_unflipped:
  assumes "flipTurn f = f" and "fenTurn f = ''w''" and "validFen R f" and "fenText R f = f"
      and "isGameOver R \<lparr> position = f, earlier = [] \<rparr>"
  shows "calculateStockfishEvaluation R r f depth =
           Some (if isCheckmate R \<lparr> position = f, earlier = [] \<rparr>
                 then \<lparr> etype = Mate, evalue = - 1, formatted = ''M-1'' \<rparr>
                 else \<lparr> etype = Cp, evalue = 0, formatted = ''0.00'' \<rparr>)"
  using assms
  by (simp add: calculateStockfishEvaluation_def newChess_def evaluateMobility_unflipped
      chessTurn_def Let_def)

lemma white_terminal_evaluation:
  assumes "CHR '' '' \<notin> set pre" and "validFen R (pre @ '' w '' @ post)"
      and "fenText R (pre @ '' w '' @ post) = pre @ '' w '' @ post"
      and "isGameOver R \<lparr> position = pre @ '' w '' @ post, earlier = [] \<rparr>"
  shows "calculateStockfishEvaluation R r (pre @ '' w '' @ post) depth =
           Some (if isCheckmate R \<lparr> position = pre @ '' w '' @ post, earlier = [] \<rparr>
                 then \<lparr> etype = Mate, evalue = - 1, formatted = ''M-1'' \<rparr>
                 else \<lparr> etype = Cp, evalue = 0, formatted = ''0.00'' \<rparr>)"
  using flipTurn_white [OF assms(1)] fenTurn_white [OF assms(1)] assms(2) assms(3) assms(4)
  by (rule terminal_evaluation_unflipped)

subsection \<open>Positions with Black to move are reloaded with White to move\<close>

lemma replaceFirst_no_w:
  "CHR ''w'' \<notin> set s \<Longrightarrow> replaceFirst '' w '' rep s = s"
proof (induction s)
  case Nil
  then show ?case by simp
next
  case (Cons c s)
  have "take 3 (c # s) \<noteq> '' w ''"
  proof
    assume "take 3 (c # s) = '' w ''"
    then have "CHR ''w'' \<in> set (take 3 (c # s))" by simp
    then have "CHR ''w'' \<in> set (c # s)" by (rule in_set_takeD)
    with Cons.prems show False by simp
  qed
  with Cons show ?case by (auto simp add: numeral_2_eq_2)
qed

lemma replaceFirst_w_before_b:
  assumes "CHR '' '' \<notin> set pre" and "CHR ''w'' \<notin> set post"
  shows "replaceFirst '' w '' rep (pre @ '' b '' @ post) = pre @ '' b '' @ post"
  using assms(1)
proof (induction pre)
  case Nil
  have "take 3 (CHR '' '' # post) \<noteq> '' w ''"
  proof
    assume "take 3 (CHR '' '' # post) = '' w ''"
    then have "CHR ''w'' \<in> set (take 2 post)" by (cases post) auto
    then have "CHR ''w'' \<in> set post" by (rule in_set_takeD)
    with assms(2) show False by simp
  qed
  with replaceFirst_no_w [OF assms(2), of rep] show ?case by (simp add: numeral_2_eq_2)
next
  case (Cons c pre)
  then show ?case by auto
qed

lemma flipTurn_black:
  assumes "CHR '' '' \<notin> set pre" and "CHR ''w'' \<notin> set post"
  shows "flipTurn (pre @ '' b '' @ post) = pre @ '' w '' @ post"
proof -
  have "replaceFirst '' b '' '' w '' (pre @ '' b '' @ post) = pre @ '' w '' @ post"
    using replaceFirst_at_first [OF assms(1), of "''b ''" "'' w ''" post] by simp
  with replaceFirst_w_before_b [OF assms, of "'' b ''"] show ?thesis
    by (simp add: flipTurn_def)
qed

lemma evaluateMobility_black_to_move:
  assumes "CHR '' '' \<notin> set pre" and "CHR ''w'' \<notin> set post"
      and "validFen R (pre @ '' w '' @ post)"
      and "fenText R (pre @ '' b '' @ post) = pre @ '' b '' @ post"
  shows "evaluateMobility R \<lparr> position = pre @ '' b '' @ post, earlier = h \<rparr>
         = Some ((int (length (legalMoves R (pre @ '' b '' @ post)))
                  - int (length (legalMoves R (pre @ '' w '' @ post)))) * 2,
                 \<lparr> position = pre @ '' w '' @ post, earlier = [] \<rparr>)"
  using flipTurn_black [OF assms(1,2)] assms(3,4)
  by (simp add: evaluateMobility_def chessLoad_def chessFen_def chessMoves_def Let_def)

lemma mate_value_after_reload:
  assumes "calculateStockfishEvaluation R r f depth = Some e" and "etype e = Mate"
      and "fenTurn (flipTurn (fenText R f)) = ''w''"
  shows "evalue e = - 1 \<and> formatted e = ''M-1''"
  using assms
  by (auto simp: calculateStockfishEvaluation_def newChess_def evaluateMobility_def chessLoad_def
        chessFen_def chessTurn_def Let_def split: option.splits if_splits)

lemma black_to_move_never_mate_plus:
  assumes "CHR '' '' \<notin> set pre" and "CHR ''w'' \<notin> set post"
      and "fenText R (pre @ '' b '' @ post) = pre @ '' b '' @ post"
      and "calculateStockfishEvaluation R r (pre @ '' b '' @ post) depth = Some e"
  shows "\<not> (etype e = Mate \<and> evalue e = 1)"
proof
  assume m: "etype e = Mate \<and> evalue e = 1"
  have "fenTurn (flipTurn (fenText R (pre @ '' b '' @ post))) = ''w''"
    using flipTurn_black [OF assms(1,2)] fenTurn_white [OF assms(1), of post] assms(3) by simp
  from mate_value_after_reload [OF assms(4) conjunct1 [OF m] this] m show False by simp
qed

text \<open>
  C9. The claim asks for (White's moves - Black's moves) * 2. In the position after Ke8
  White has six legal moves and Black, were it Black's turn, has one, so the claim asks
  for 10; the code returns 0, because with White to move the double replacement restores
  the position and both counts are White's. In the same position with Black to move the
  first count is Black's and the second White's, so the code returns -10.
\<close>

theorem evaluateMobility_not_difference:
  "evaluateMobility endingRules \<lparr> position = posAfterKe8, earlier = [] \<rparr>
     = Some (0, \<lparr> position = posAfterKe8, earlier = [] \<rparr>)
   \<and> mobilitySpec endingRules posAfterKe8 = 10
   \<and> evaluateMobility endingRules \<lparr> position = posAfterKe8Black, earlier = [] \<rparr>
     = Some (- 10, \<lparr> position = posAfterKe8, earlier = [] \<rparr>)
   \<and> mobilitySpec endingRules posAfterKe8Black = 10"
  by code_simp

text \<open>
  C3. The stalemate position is terminal and not checkmate, with Black to move; the claim
  asks for a centipawn evaluation of exactly 0. \<open>evaluateMobility\<close> has reloaded the board
  with White to move before the terminal test, White has moves there, and the result is
  the ordinary score of 90 centipawns (pawn 100, mobility (0 - 5) * 2).
\<close>

theorem stalemate_black_to_move_not_zero:
  "isGameOver endingRules \<lparr> position = posStalemate, earlier = [] \<rparr>
   \<and> \<not> isCheckmate endingRules \<lparr> position = posStalemate, earlier = [] \<rparr>
   \<and> fenTurn posStalemate = ''b''
   \<and> calculateStockfishEvaluation endingRules (1 / 2) posStalemate 15
       = Some \<lparr> etype = Cp, evalue = 90, formatted = ''+0.90'' \<rparr>"
  by code_simp

subsection \<open>The random perturbation\<close>









section \<open>The principal variation\<close>

lemma pvLoop_length:
  "pvLoop R rs chess pv i depth = Some out \<Longrightarrow>
     take (length pv) out = pv \<and> int (length out) \<le> int (length pv) + max 0 (depth - i)"
proof (induction R rs chess pv i depth arbitrary: out rule: pvLoop.induct)
  case (1 R rs chess pv i depth)
  show ?case
  proof (cases "i < depth")
    case False
    with "1.prems" show ?thesis
      by (simp add: pvLoop.simps)
  next
    case True
    show ?thesis
    proof (cases "length (chessMoves R chess) = 0")
      case True
      with \<open>i < depth\<close> "1.prems" show ?thesis
        by (simp add: pvLoop.simps)
    next
      case False
      from "1.prems" \<open>i < depth\<close> False obtain nextMove made chess' where
        a: "atFloor (chessMoves R chess) (rs i * of_nat (min 3 (length (chessMoves R chess)))) = Some nextMove"
        and m: "chessMove R chess (requestOf nextMove) = Some (made, chess')"
        and r: "pvLoop R rs chess' (pv @ [msan nextMove]) (i + 1) depth = Some out"
        by (subst (asm) pvLoop.simps) (auto simp: Let_def split: option.splits)
      from "1.IH" [OF \<open>i < depth\<close> refl False a m refl r]
      have "take (length (pv @ [msan nextMove])) out = pv @ [msan nextMove]"
        and "int (length out) \<le> int (length (pv @ [msan nextMove])) + max 0 (depth - (i + 1))"
        by simp_all
      then show ?thesis using \<open>i < depth\<close>
        by (auto simp: take_Suc_conv_app_nth dest: arg_cong [where f = "take (length pv)"])
    qed
  qed
qed

lemma calculatePrincipalVariation_length:
  assumes "calculatePrincipalVariation R rs f bestMove depth = Some out"
  shows "take 1 out = [bm_san bestMove] \<and> int (length out) \<le> 1 + max 0 (depth - 1)"
proof -
  from assms obtain chess made chess' where
    "pvLoop R rs chess' [bm_san bestMove] 1 depth = Some out"
    by (auto simp: calculatePrincipalVariation_def Let_def split: option.splits)
  from pvLoop_length [OF this] show ?thesis by simp
qed

lemma analyzePosition_pv:
  assumes "analyzePosition R ds f depth = Resolved res"
  shows "calculatePrincipalVariation R (d_pv ds) f (sr_bestMove res) 3 = Some (sr_principalVariation res)
         \<and> sr_depth res = depth"
  using assms by (auto simp: analyzePosition_def split: option.splits)

text \<open>
  C8 (as stated). The variation is always built with the fixed length 3, whatever depth
  was requested. With only the kings left (every continuation is a draw by insufficient
  material, so the search has nothing to look at) an analysis with requested depth 2
  returns three moves; and an analysis of the position after Ke8 with requested depth 0
  returns three moves as well.
\<close>

theorem principalVariation_exceeds_depth:
  "analyzeWithStockfish endingRules zeroDraws posBareKings 2
     = Resolved \<lparr> a_position = \<lparr> fen = posBareKings, turn = ''w'' \<rparr>,
              a_evaluation = \<lparr> etype = Cp, evalue = 0, formatted = ''0.00'' \<rparr>,
              a_bestMove = \<lparr> bm_from = ''e5'', bm_to = ''e4'', bm_san = ''Ke4'', bm_promotion = None \<rparr>,
              a_principalVariation = [''Ke4'', ''Kd8'', ''Kd5''],
              a_depth = 2, a_confidence = 87, a_analysisTime = 500 \<rparr>
   \<and> analyzeWithStockfish endingRules pvDraws posAfterKe8 0
     = Resolved \<lparr> a_position = \<lparr> fen = posAfterKe8, turn = ''w'' \<rparr>,
              a_evaluation = \<lparr> etype = Cp, evalue = 50, formatted = ''+0.50'' \<rparr>,
              a_bestMove = \<lparr> bm_from = ''d6'', bm_to = ''e5'', bm_san = ''Ke5'', bm_promotion = None \<rparr>,
              a_principalVariation = [''Ke5'', ''Kxe7'', ''Kf5''],
              a_depth = 0, a_confidence = 85, a_analysisTime = 500 \<rparr>"
  by code_simp

text \<open>
  C8 (amended). For every analysis result, the principal variation is an ordered sequence
  of SAN strings that starts with the best move's SAN and has at least one and at most
  three entries; so its length is at most the requested depth whenever that depth is 3 or
  more.
\<close>

theorem principalVariation_bounds:
  assumes "analyzeWithStockfish R ds f depth = Resolved a"
  shows "1 \<le> length (a_principalVariation a) \<and> length (a_principalVariation a) \<le> 3
       \<and> take 1 (a_principalVariation a) = [bm_san (a_bestMove a)]
       \<and> a_depth a = depth
       \<and> (3 \<le> depth \<longrightarrow> int (length (a_principalVariation a)) \<le> a_depth a)"
proof -
  from assms obtain res where
    r: "analyzePosition R ds f depth = Resolved res"
    and pv: "a_principalVariation a = sr_principalVariation res"
    and bm: "a_bestMove a = sr_bestMove res"
    and dp: "a_depth a = sr_depth res"
    by (auto simp: analyzeWithStockfish_def split: option.splits promise.splits)
  from analyzePosition_pv [OF r] calculatePrincipalVariation_length
  have t: "take 1 (sr_principalVariation res) = [bm_san (sr_bestMove res)]"
    and l: "int (length (sr_principalVariation res)) \<le> 1 + max 0 (3 - 1)"
    and d: "sr_depth res = depth"
    by blast+
  from t have "sr_principalVariation res \<noteq> []" by auto
  then have "1 \<le> length (sr_principalVariation res)"
    by (cases "sr_principalVariation res") simp_all
  with t l d pv bm dp show ?thesis by simp
qed

theorem principalVariation_bounds_witness:
  "analyzeWithStockfish endingRules halfDraws posAfterKe8 0
     = Resolved \<lparr> a_position = \<lparr> fen = posAfterKe8, turn = ''w'' \<rparr>,
              a_evaluation = \<lparr> etype = Cp, evalue = 50, formatted = ''+0.50'' \<rparr>,
              a_bestMove = \<lparr> bm_from = ''d6'', bm_to = ''e5'', bm_san = ''Ke5'', bm_promotion = None \<rparr>,
              a_principalVariation = [''Ke5'', ''Kxe7'', ''Kf4''],
              a_depth = 0, a_confidence = 85, a_analysisTime = 500 \<rparr>
   \<and> 1 \<le> length [''Ke5'', ''Kxe7'', ''Kf4''] \<and> length [''Ke5'', ''Kxe7'', ''Kf4''] \<le> 3"
proof -
  have h: "analyzeWithStockfish endingRules halfDraws posAfterKe8 0
     = Resolved \<lparr> a_position = \<lparr> fen = posAfterKe8, turn = ''w'' \<rparr>,
              a_evaluation = \<lparr> etype = Cp, evalue = 50, formatted = ''+0.50'' \<rparr>,
              a_bestMove = \<lparr> bm_from = ''d6'', bm_to = ''e5'', bm_san = ''Ke5'', bm_promotion = None \<rparr>,
              a_principalVariation = [''Ke5'', ''Kxe7'', ''Kf4''],
              a_depth = 0, a_confidence = 85, a_analysisTime = 500 \<rparr>"
    by code_simp
  from principalVariation_bounds [OF h] h show ?thesis by simp
qed

section \<open>The game session\<close>

subsection \<open>Store and engine facts\<close>

lemma games_mutateGame: "games (mutateGame d gameId g) = (games d)(gameId \<mapsto> g)"
  by (simp add: mutateGame_def)

lemma games_saveGame: "games (saveGame d g) = (games d)(gid g \<mapsto> g)"
  by (simp add: saveGame_def Let_def)

lemma getGame_saved: "getGame (saveGame (mutateGame d gameId g) g) gameId = Some g"
  by (simp add: getGame_def games_saveGame games_mutateGame)

lemma not_over_has_moves:
  assumes "\<not> isGameOver R chess"
  shows "chessMoves R chess \<noteq> []"
  using assms by (auto simp: isGameOver_def isCheckmate_def isStalemate_def)

lemma find_member: "find P xs = Some x \<Longrightarrow> x \<in> set xs \<and> P x"
  by (induction xs) (auto split: if_splits)

lemma engineMakeMove_facts:
  assumes "engineMakeMove R f move = Some mr"
  shows "validFen R f \<and> mr_move mr \<in> set (legalMoves R f) \<and> mr_fen mr = mafter (mr_move mr)
       \<and> mr_isGameOver mr = isGameOver R \<lparr> position = mr_fen mr, earlier = [f] \<rparr>
       \<and> mr_isCheckmate mr = isCheckmate R \<lparr> position = mr_fen mr, earlier = [f] \<rparr>
       \<and> mr_isStalemate mr = isStalemate R \<lparr> position = mr_fen mr, earlier = [f] \<rparr>"
  using assms
  by (auto simp: engineMakeMove_def newChess_def chessMove_def chessMoves_def chessFen_def
           split: option.splits if_splits dest: find_member)

lemma isLegalMove_engineMakeMove:
  "isLegalMove R f move \<Longrightarrow> \<exists>mr. engineMakeMove R f move = Some mr"
  by (auto simp: isLegalMove_def engineMakeMove_def split: option.splits)

lemma engineMakeMove_legal:
  "engineMakeMove R f move = Some mr \<Longrightarrow> isLegalMove R f move"
  by (auto simp: isLegalMove_def engineMakeMove_def split: option.splits)

lemma getStockfishMove_not_null:
  assumes "legalMoves R f \<noteq> []"
  shows "getStockfishMove R gd f level \<noteq> Resolved None"
proof (cases "validFen R f")
  case False
  then show ?thesis by (simp add: getStockfishMove_def newChess_def)
next
  case True
  show ?thesis
  proof (cases "selectMove R gd f level (legalMoves R f)")
    case (Resolved sel)
    show ?thesis
    proof (cases sel)
      case None
      with True Resolved assms show ?thesis
        by (simp add: getStockfishMove_def newChess_def chessMoves_def)
    next
      case (Some m)
      with True Resolved assms show ?thesis
        by (simp add: getStockfishMove_def newChess_def chessMoves_def split: option.splits)
    qed
  next
    case Rejected
    with True assms show ?thesis
      by (simp add: getStockfishMove_def newChess_def chessMoves_def)
  next
    case Unsettled
    with True assms show ?thesis
      by (simp add: getStockfishMove_def newChess_def chessMoves_def)
  qed
qed

subsection \<open>Rejected moves\<close>

text \<open>
  C7. When a move is submitted for an active session and the rules oracle rejects it, the
  reply (there is one) is \<open>success: false\<close> with the error \<open>Illegal move\<close> (status 400) and
  the store is returned as it was: the session, with its move log, position and status, is the one
  from before the call.
\<close>

theorem illegal_move_rejected:
  assumes "getGame d gameId = Some game" and "gameId \<noteq> []" and "status game = Active"
      and "\<not> isLegalMove R (fen (currentPosition game)) move"
  shows "makeMove R d \<lparr> req_gameId = Some gameId, req_move = Some move \<rparr> gd clk
           = (Some \<lparr> httpStatus = 400, success = False, r_error = Some ''Illegal move'',
                     r_game = None, r_botMove = None \<rparr>, d)
         \<and> getGame (snd (makeMove R d \<lparr> req_gameId = Some gameId, req_move = Some move \<rparr> gd clk)) gameId
           = Some game"
  using assms by (simp add: makeMove_def falsy_def failure_def)

theorem illegal_move_rejected_witness:
  "getGame endingStore ''game_1'' = Some endingGame \<and> ''game_1'' \<noteq> []
   \<and> status endingGame = Active
   \<and> \<not> isLegalMove endingRules (fen (currentPosition endingGame)) illegalKf8
   \<and> makeMove endingRules endingStore \<lparr> req_gameId = Some ''game_1'', req_move = Some illegalKf8 \<rparr>
        endingDraws endingClock
       = (Some \<lparr> httpStatus = 400, success = False, r_error = Some ''Illegal move'',
                 r_game = None, r_botMove = None \<rparr>, endingStore)"
proof -
  have h1: "getGame endingStore ''game_1'' = Some endingGame"
    by (simp add: getGame_def endingStore_def)
  have h2: "''game_1'' \<noteq> []" by simp
  have h3: "status endingGame = Active" by (simp add: endingGame_def)
  have h4: "\<not> isLegalMove endingRules (fen (currentPosition endingGame)) illegalKf8"
    by code_simp
  from illegal_move_rejected [OF h1 h2 h3 h4, where gd = endingDraws and clk = endingClock]
  show ?thesis using h1 h2 h3 h4 by blast
qed

subsection \<open>The move log\<close>

lemma makeBotMove_success:
  assumes "legalMoves R (mr_fen mr) \<noteq> []"
      and "fst (makeBotMove R d gameId game mr gd clk) = Some reply" and "success reply"
  shows "\<exists>b g'. getStockfishMove R gd (mr_fen mr) (difficulty (settings game)) = Resolved (Some b)
           \<and> r_botMove reply = Some (botEntry b (t_botMove clk))
           \<and> r_game reply = Some g'
           \<and> getGame (snd (makeBotMove R d gameId game mr gd clk)) gameId = Some g'
           \<and> moves g' = moves game @ [botEntry b (t_botMove clk)]"
proof (cases "getStockfishMove R gd (mr_fen mr) (difficulty (settings game))")
  case Unsettled
  with assms(2) show ?thesis
    by (simp add: makeBotMove_def)
next
  case Rejected
  with assms(2,3) show ?thesis
    by (auto simp: makeBotMove_def failure_def)
next
  case (Resolved ob)
  with getStockfishMove_not_null [OF assms(1)] obtain b where
    b: "getStockfishMove R gd (mr_fen mr) (difficulty (settings game)) = Resolved (Some b)"
    by (cases ob) auto
  show ?thesis
  proof (cases "getGameStatus R (b_fen b)")
    case None
    with b assms(2,3) show ?thesis
      by (auto simp: makeBotMove_def failure_def Let_def)
  next
    case (Some gameStatus)
    with b assms(2) show ?thesis
      by (auto simp: makeBotMove_def Let_def getGame_saved)
  qed
qed

text \<open>
  C10. A successful move submission on an active session with a legal move: when the
  player's move ends the game, the reply has no bot move and the log grows by the
  player's entry alone; otherwise the reply has a bot move and the log grows by the
  player's entry followed by the bot's entry. The player's entry is tagged
  \<open>isPlayerMove = true\<close>, the bot's \<open>false\<close>. (A position that is not over has a legal
  move, by the library's definition of checkmate and stalemate.)
\<close>

theorem move_log_after_move:
  assumes "getGame d gameId = Some game" and "gameId \<noteq> []" and "status game = Active"
      and "isLegalMove R (fen (currentPosition game)) move"
      and "fst (makeMove R d \<lparr> req_gameId = Some gameId, req_move = Some move \<rparr> gd clk) = Some reply"
      and "success reply"
  shows "\<exists>mr g'. engineMakeMove R (fen (currentPosition game)) move = Some mr
           \<and> r_game reply = Some g'
           \<and> getGame (snd (makeMove R d \<lparr> req_gameId = Some gameId, req_move = Some move \<rparr> gd clk)) gameId = Some g'
           \<and> isPlayerMove (playerEntry mr (t_playerMove clk))
           \<and> (if mr_isGameOver mr then
                 r_botMove reply = None
                 \<and> moves g' = moves game @ [playerEntry mr (t_playerMove clk)]
               else
                 (\<exists>b. r_botMove reply = Some (botEntry b (t_botMove clk))
                      \<and> \<not> isPlayerMove (botEntry b (t_botMove clk))
                      \<and> moves g' = moves game @ [playerEntry mr (t_playerMove clk), botEntry b (t_botMove clk)]))"
proof -
  let ?req = "\<lparr> req_gameId = Some gameId, req_move = Some move \<rparr>"
  from isLegalMove_engineMakeMove [OF assms(4)] obtain mr where
    mr: "engineMakeMove R (fen (currentPosition game)) move = Some mr" by blast
  define game1 where "game1 = game\<lparr> moves := moves game @ [playerEntry mr (t_playerMove clk)],
        currentPosition := \<lparr> fen = mr_fen mr, turn = fenTurn (mr_fen mr) \<rparr> \<rparr>"
  have pm: "isPlayerMove (playerEntry mr (t_playerMove clk))"
    by (simp add: playerEntry_def)
  show ?thesis
  proof (cases "mr_isGameOver mr")
    case True
    show ?thesis
    proof (cases "getGameStatus R (mr_fen mr)")
      case None
      with assms True mr show ?thesis
        by (auto simp: makeMove_def falsy_def failure_def Let_def)
    next
      case (Some res)
      with assms(1-5) True mr pm show ?thesis
        by (auto simp: makeMove_def falsy_def Let_def getGame_saved)
    qed
  next
    case False
    have mm: "makeMove R d ?req gd clk = makeBotMove R d gameId game1 mr gd clk"
      using assms(1-4) mr False by (simp add: makeMove_def falsy_def Let_def game1_def)
    from engineMakeMove_facts [OF mr] False
    have "\<not> isGameOver R \<lparr> position = mr_fen mr, earlier = [fen (currentPosition game)] \<rparr>"
      by blast
    from not_over_has_moves [OF this] have lm: "legalMoves R (mr_fen mr) \<noteq> []"
      by (simp add: chessMoves_def)
    from assms(5) mm have "fst (makeBotMove R d gameId game1 mr gd clk) = Some reply" by simp
    from makeBotMove_success [OF lm this assms(6)] mm obtain b g' where
      "r_botMove reply = Some (botEntry b (t_botMove clk))"
      "r_game reply = Some g'"
      "getGame (snd (makeMove R d ?req gd clk)) gameId = Some g'"
      "moves g' = moves game1 @ [botEntry b (t_botMove clk)]"
      by (metis (no_types, lifting))
    moreover have "\<not> isPlayerMove (botEntry b (t_botMove clk))"
      by (simp add: botEntry_def)
    ultimately show ?thesis using mr pm False
      by (auto simp: game1_def)
  qed
qed

theorem move_log_after_move_witness:
  "getGame endingStore ''game_1'' = Some endingGame \<and> ''game_1'' \<noteq> []
   \<and> status endingGame = Active
   \<and> isLegalMove endingRules (fen (currentPosition endingGame)) ke8
   \<and> map_option success (fst (makeMove endingRules endingStore \<lparr> req_gameId = Some ''game_1'', req_move = Some ke8 \<rparr> endingDraws endingClock))
       = Some True
   \<and> (\<exists>reply mr g'.
         fst (makeMove endingRules endingStore \<lparr> req_gameId = Some ''game_1'', req_move = Some ke8 \<rparr> endingDraws endingClock) = Some reply
           \<and> engineMakeMove endingRules (fen (currentPosition endingGame)) ke8 = Some mr
           \<and> r_game reply = Some g'
           \<and> getGame (snd (makeMove endingRules endingStore \<lparr> req_gameId = Some ''game_1'', req_move = Some ke8 \<rparr> endingDraws endingClock)) ''game_1'' = Some g'
           \<and> isPlayerMove (playerEntry mr (t_playerMove endingClock))
           \<and> (if mr_isGameOver mr then
                 r_botMove reply = None
                 \<and> moves g' = moves endingGame @ [playerEntry mr (t_playerMove endingClock)]
               else
                 (\<exists>b. r_botMove reply = Some (botEntry b (t_botMove endingClock))
                      \<and> \<not> isPlayerMove (botEntry b (t_botMove endingClock))
                      \<and> moves g' = moves endingGame @ [playerEntry mr (t_playerMove endingClock), botEntry b (t_botMove endingClock)])))"
proof -
  let ?call = "makeMove endingRules endingStore \<lparr> req_gameId = Some ''game_1'', req_move = Some ke8 \<rparr>
                 endingDraws endingClock"
  have h1: "getGame endingStore ''game_1'' = Some endingGame"
    by (simp add: getGame_def endingStore_def)
  have h2: "''game_1'' \<noteq> []" by simp
  have h3: "status endingGame = Active" by (simp add: endingGame_def)
  have h4: "isLegalMove endingRules (fen (currentPosition endingGame)) ke8"
    by code_simp
  have h5: "map_option success (fst ?call) = Some True"
    by code_simp
  then obtain reply where r: "fst ?call = Some reply" and s: "success reply"
    by (cases "fst ?call") auto
  from move_log_after_move [OF h1 h2 h3 h4 r s] r
  show ?thesis using h1 h2 h3 h4 h5 by blast
qed

subsection \<open>Terminal positions\<close>

lemma player_move_terminal:
  assumes "getGame d gameId = Some game" and "gameId \<noteq> []" and "status game = Active"
      and "engineMakeMove R (fen (currentPosition game)) move = Some mr"
      and "mr_isGameOver mr"
      and "getGameStatus R (mr_fen mr) = Some res"
  shows "\<exists>g'. fst (makeMove R d \<lparr> req_gameId = Some gameId, req_move = Some move \<rparr> gd clk)
               = Some \<lparr> httpStatus = 200, success = True, r_error = None, r_game = Some g',
                        r_botMove = None \<rparr>
             \<and> status g' = (if mr_isCheckmate mr then Checkmate
                            else if mr_isStalemate mr then Stalemate else Draw)
             \<and> endTime g' = Some (t_playerEnd clk) \<and> result g' = Some res"
  using assms engineMakeMove_legal [OF assms(4)]
  by (simp add: makeMove_def falsy_def Let_def)

lemma getGameStatus_stalemate:
  assumes "validFen R f" and "isStalemate R \<lparr> position = f, earlier = [] \<rparr>"
  shows "getGameStatus R f = Some ''1/2-1/2''"
  using assms by (auto simp: getGameStatus_def newChess_def isStalemate_def isCheckmate_def)

lemma getGameStatus_checkmate:
  assumes "validFen R f" and "isCheckmate R \<lparr> position = f, earlier = [] \<rparr>"
  shows "getGameStatus R f = Some ''0-1'' \<or> getGameStatus R f = Some ''1-0''"
  using assms by (auto simp: getGameStatus_def newChess_def)

lemma bot_move_status:
  assumes "getStockfishMove R gd (mr_fen mr) (difficulty (settings game)) = Resolved (Some b)"
      and "getGameStatus R (b_fen b) = Some gameStatus"
  shows "\<exists>reply g'. fst (makeBotMove R d gameId game mr gd clk) = Some reply
             \<and> r_game reply = Some g'
             \<and> status g' = (if gameStatus \<noteq> ''active''
                             then (if includesStr gameStatus ''1/2'' then Draw else Checkmate)
                             else status game)
             \<and> (gameStatus \<noteq> ''active'' \<longrightarrow>
                   endTime g' = Some (t_botEnd clk) \<and> result g' = Some gameStatus)"
  using assms by (simp add: makeBotMove_def Let_def)

lemma bot_stalemate_is_draw:
  assumes "getStockfishMove R gd (mr_fen mr) (difficulty (settings game)) = Resolved (Some b)"
      and "validFen R (b_fen b)"
      and "isStalemate R \<lparr> position = b_fen b, earlier = [] \<rparr>"
  shows "map_option status (Option.bind (fst (makeBotMove R d gameId game mr gd clk)) r_game)
           = Some Draw"
proof -
  from getGameStatus_stalemate [OF assms(2,3)]
  have gs: "getGameStatus R (b_fen b) = Some ''1/2-1/2''" .
  from bot_move_status [OF assms(1) gs, of d gameId clk] show ?thesis
    by auto
qed

lemma bot_checkmate_is_checkmate:
  assumes "getStockfishMove R gd (mr_fen mr) (difficulty (settings game)) = Resolved (Some b)"
      and "validFen R (b_fen b)"
      and "isCheckmate R \<lparr> position = b_fen b, earlier = [] \<rparr>"
  shows "map_option status (Option.bind (fst (makeBotMove R d gameId game mr gd clk)) r_game)
           = Some Checkmate"
proof -
  from getGameStatus_checkmate [OF assms(2,3)] obtain gs where
    gs: "getGameStatus R (b_fen b) = Some gs" and v: "gs = ''0-1'' \<or> gs = ''1-0''"
    by blast
  from v have "gs \<noteq> ''active'' \<and> \<not> includesStr gs ''1/2''" by auto
  with bot_move_status [OF assms(1) gs, of d gameId clk] show ?thesis
    by auto
qed

text \<open>
  C5. The claim asks that a move whose resulting position is stalemate puts the session
  into the state \<open>stalemate\<close>, for the bot's move as for the player's. In the ending, the
  player (Black) plays Ke8 and the beginner bot answers Ke6, which stalemates Black: the
  oracle reports stalemate and no checkmate, and the session is stamped \<open>draw\<close>. (The
  player's own move is handled as the claim says, \<open>player_move_terminal\<close>; the bot's path
  maps every result containing \<open>1/2\<close> to \<open>draw\<close>, \<open>bot_stalemate_is_draw\<close>.)
\<close>

theorem bot_stalemate_recorded_as_draw:
  "isStalemate endingRules \<lparr> position = posStalemate, earlier = [] \<rparr>
   \<and> \<not> isCheckmate endingRules \<lparr> position = posStalemate, earlier = [] \<rparr>
   \<and> map_option m_san
         (Option.bind (fst (makeMove endingRules endingStore moveKe8 endingDraws endingClock)) r_botMove)
       = Some ''Ke6''
   \<and> map_option m_fen
         (Option.bind (fst (makeMove endingRules endingStore moveKe8 endingDraws endingClock)) r_botMove)
       = Some posStalemate
   \<and> map_option status
         (Option.bind (fst (makeMove endingRules endingStore moveKe8 endingDraws endingClock)) r_game)
       = Some Draw
   \<and> map_option result
         (Option.bind (fst (makeMove endingRules endingStore moveKe8 endingDraws endingClock)) r_game)
       = Some (Some ''1/2-1/2'')"
  by code_simp

subsection \<open>Status transitions\<close>

lemma makeBotMove_cases:
  obtains
    (mutated) g' where "gid g' = gid game"
      "snd (makeBotMove R d gameId game mr gd clk) = mutateGame d gameId g'"
  | (saved) g' where "gid g' = gid game"
      "snd (makeBotMove R d gameId game mr gd clk) = saveGame (mutateGame d gameId g') g'"
proof (cases "getStockfishMove R gd (mr_fen mr) (difficulty (settings game))")
  case Unsettled
  then have "snd (makeBotMove R d gameId game mr gd clk) = mutateGame d gameId game"
    by (simp add: makeBotMove_def)
  with refl show ?thesis by (rule mutated)
next
  case Rejected
  then have "snd (makeBotMove R d gameId game mr gd clk) = mutateGame d gameId game"
    by (simp add: makeBotMove_def)
  with refl show ?thesis by (rule mutated)
next
  case (Resolved ob)
  show ?thesis
  proof (cases ob)
    case None
    with Resolved have "snd (makeBotMove R d gameId game mr gd clk) = saveGame (mutateGame d gameId game) game"
      by (simp add: makeBotMove_def)
    with refl show ?thesis by (rule saved)
  next
    case (Some b)
    define game1 where "game1 = game\<lparr> moves := moves game @ [botEntry b (t_botMove clk)],
        currentPosition := \<lparr> fen = b_fen b, turn = fenTurn (b_fen b) \<rparr> \<rparr>"
    have g1: "gid game1 = gid game" by (simp add: game1_def)
    show ?thesis
    proof (cases "getGameStatus R (b_fen b)")
      case None
      with \<open>getStockfishMove R gd (mr_fen mr) (difficulty (settings game)) = Resolved ob\<close> Some
      have "snd (makeBotMove R d gameId game mr gd clk) = mutateGame d gameId game1"
        by (simp add: makeBotMove_def Let_def game1_def)
      with g1 show ?thesis by (rule mutated)
    next
      case (Some gameStatus)
      define game2 where "game2 = (if gameStatus \<noteq> ''active'' then
            game1\<lparr> status := (if includesStr gameStatus ''1/2'' then Draw else Checkmate),
                    endTime := Some (t_botEnd clk), result := Some gameStatus \<rparr>
          else game1)"
      have g2: "gid game2 = gid game" by (simp add: game2_def g1)
      from \<open>getStockfishMove R gd (mr_fen mr) (difficulty (settings game)) = Resolved ob\<close> \<open>ob = Some b\<close> Some
      have "snd (makeBotMove R d gameId game mr gd clk) = saveGame (mutateGame d gameId game2) game2"
        by (simp add: makeBotMove_def Let_def game1_def game2_def)
      with g2 show ?thesis by (rule saved)
    qed
  qed
qed

lemma makeBotMove_other:
  assumes "gid game = gameId" and "k \<noteq> gameId"
  shows "games (snd (makeBotMove R d gameId game mr gd clk)) k = games d k"
  using assms
  by (cases rule: makeBotMove_cases [of game R d gameId mr gd clk])
     (simp_all add: games_saveGame games_mutateGame)

lemma makeBotMove_same:
  assumes "gid game = gameId"
  shows "\<exists>g'. games (snd (makeBotMove R d gameId game mr gd clk)) gameId = Some g' \<and> gid g' = gameId"
  using assms
  by (cases rule: makeBotMove_cases [of game R d gameId mr gd clk])
     (simp_all add: games_saveGame games_mutateGame)

lemma makeMove_inactive:
  "getGame d gameId = Some game \<Longrightarrow> status game \<noteq> Active \<Longrightarrow>
     snd (makeMove R d \<lparr> req_gameId = Some gameId, req_move = mo \<rparr> gd clk) = d
     \<and> map_option success (fst (makeMove R d \<lparr> req_gameId = Some gameId, req_move = mo \<rparr> gd clk))
         = Some False"
  by (simp add: makeMove_def failure_def split: option.splits)

lemma makeMove_unknown:
  "getGame d gameId = None \<Longrightarrow>
     snd (makeMove R d \<lparr> req_gameId = Some gameId, req_move = mo \<rparr> gd clk) = d"
  by (simp add: makeMove_def failure_def split: option.splits)

lemma makeMove_no_id:
  "req_gameId req = None \<Longrightarrow> snd (makeMove R d req gd clk) = d"
  by (simp add: makeMove_def failure_def split: option.splits)

lemma makeMove_active_cases:
  assumes "getGame d gameId = Some game" and "status game = Active"
  obtains
    (unchanged) "snd (makeMove R d \<lparr> req_gameId = Some gameId, req_move = mo \<rparr> gd clk) = d"
  | (mutated) g' where "gid g' = gid game"
      "snd (makeMove R d \<lparr> req_gameId = Some gameId, req_move = mo \<rparr> gd clk) = mutateGame d gameId g'"
  | (saved) g' where "gid g' = gid game"
      "snd (makeMove R d \<lparr> req_gameId = Some gameId, req_move = mo \<rparr> gd clk)
         = saveGame (mutateGame d gameId g') g'"
  | (bot) g' mr where "gid g' = gid game"
      "snd (makeMove R d \<lparr> req_gameId = Some gameId, req_move = mo \<rparr> gd clk)
         = snd (makeBotMove R d gameId g' mr gd clk)"
proof (cases mo)
  case None
  then have "snd (makeMove R d \<lparr> req_gameId = Some gameId, req_move = mo \<rparr> gd clk) = d"
    by (simp add: makeMove_def failure_def)
  then show ?thesis by (rule unchanged)
next
  case (Some move)
  let ?f = "fen (currentPosition game)"
  show ?thesis
  proof (cases "falsy (Some gameId) \<or> \<not> isLegalMove R ?f move")
    case True
    with assms Some have "snd (makeMove R d \<lparr> req_gameId = Some gameId, req_move = mo \<rparr> gd clk) = d"
      by (auto simp: makeMove_def failure_def)
    then show ?thesis by (rule unchanged)
  next
    case False
    show ?thesis
    proof (cases "engineMakeMove R ?f move")
      case None
      with assms Some False
      have "snd (makeMove R d \<lparr> req_gameId = Some gameId, req_move = mo \<rparr> gd clk) = d"
        by (simp add: makeMove_def failure_def)
      then show ?thesis by (rule unchanged)
    next
      case (Some mr)
      define game1 where "game1 = game\<lparr> moves := moves game @ [playerEntry mr (t_playerMove clk)],
        currentPosition := \<lparr> fen = mr_fen mr, turn = fenTurn (mr_fen mr) \<rparr> \<rparr>"
      have g1: "gid game1 = gid game" by (simp add: game1_def)
      show ?thesis
      proof (cases "mr_isGameOver mr")
        case False
        with assms \<open>mo = Some move\<close> \<open>\<not> (falsy (Some gameId) \<or> \<not> isLegalMove R ?f move)\<close> Some
        have "snd (makeMove R d \<lparr> req_gameId = Some gameId, req_move = mo \<rparr> gd clk)
                = snd (makeBotMove R d gameId game1 mr gd clk)"
          by (simp add: makeMove_def Let_def game1_def)
        with g1 show ?thesis by (rule bot)
      next
        case True
        define game2 where "game2 = game1\<lparr> status :=
              (if mr_isCheckmate mr then Checkmate else if mr_isStalemate mr then Stalemate else Draw),
              endTime := Some (t_playerEnd clk) \<rparr>"
        have g2: "gid game2 = gid game" by (simp add: game2_def g1)
        show ?thesis
        proof (cases "getGameStatus R (mr_fen mr)")
          case None
          with assms \<open>mo = Some move\<close> \<open>\<not> (falsy (Some gameId) \<or> \<not> isLegalMove R ?f move)\<close> Some True
          have "snd (makeMove R d \<lparr> req_gameId = Some gameId, req_move = mo \<rparr> gd clk)
                  = mutateGame d gameId game2"
            by (simp add: makeMove_def Let_def game1_def game2_def failure_def)
          with g2 show ?thesis by (rule mutated)
        next
          case (Some res)
          have g3: "gid (game2\<lparr> result := Some res \<rparr>) = gid game" by (simp add: g2)
          from assms \<open>mo = Some move\<close> \<open>\<not> (falsy (Some gameId) \<or> \<not> isLegalMove R ?f move)\<close>
            \<open>engineMakeMove R ?f move = Some mr\<close> True Some
          have "snd (makeMove R d \<lparr> req_gameId = Some gameId, req_move = mo \<rparr> gd clk)
                  = saveGame (mutateGame d gameId (game2\<lparr> result := Some res \<rparr>)) (game2\<lparr> result := Some res \<rparr>)"
            by (simp add: makeMove_def Let_def game1_def game2_def)
          with g3 show ?thesis by (rule saved)
        qed
      qed
    qed
  qed
qed

lemma makeMove_active_other:
  assumes "getGame d gameId = Some game" and "status game = Active"
      and "gid game = gameId" and "k \<noteq> gameId"
  shows "games (snd (makeMove R d \<lparr> req_gameId = Some gameId, req_move = mo \<rparr> gd clk)) k = games d k"
  using assms(3,4)
  by (cases rule: makeMove_active_cases [OF assms(1,2), of R mo gd clk])
     (simp_all add: games_saveGame games_mutateGame makeBotMove_other)

lemma makeMove_active_same:
  assumes "getGame d gameId = Some game" and "status game = Active" and "gid game = gameId"
  shows "\<exists>g'. games (snd (makeMove R d \<lparr> req_gameId = Some gameId, req_move = mo \<rparr> gd clk)) gameId = Some g'
              \<and> gid g' = gameId"
  using assms(1,3)
  by (cases rule: makeMove_active_cases [OF assms(1,2), of R mo gd clk])
     (simp_all add: games_saveGame games_mutateGame makeBotMove_same getGame_def)

lemma resignGame_inactive:
  "getGame d gameId = Some game \<Longrightarrow> status game \<noteq> Active \<Longrightarrow>
     snd (resignGame d gameId now) = d
     \<and> map_option success (fst (resignGame d gameId now)) = Some False"
  by (simp add: resignGame_def failure_def)

lemma resignGame_other:
  assumes "getGame d gameId = Some game" and "gid game = gameId" and "k \<noteq> gameId"
  shows "games (snd (resignGame d gameId now)) k = games d k"
  using assms by (simp add: resignGame_def failure_def Let_def games_saveGame games_mutateGame)

lemma resignGame_unknown: "getGame d gameId = None \<Longrightarrow> snd (resignGame d gameId now) = d"
  by (simp add: resignGame_def failure_def)

lemma resignGame_same:
  assumes "getGame d gameId = Some game" and "gid game = gameId"
  shows "\<exists>g'. games (snd (resignGame d gameId now)) gameId = Some g' \<and> gid g' = gameId"
  using assms
  by (simp add: resignGame_def failure_def Let_def games_saveGame games_mutateGame getGame_def)

lemma applyOperation_session:
  assumes "keyedById d" and "games d k = Some g"
  shows "\<exists>g'. games (applyOperation R d op) k = Some g' \<and> gid g' = k
              \<and> (status g \<noteq> Active \<longrightarrow> g' = g)"
proof (cases op)
  case (MoveOp req gd clk)
  obtain oid mo where req: "req = \<lparr> req_gameId = oid, req_move = mo \<rparr>"
    by (cases req) auto
  from assms have gk: "gid g = k" by (simp add: keyedById_def)
  show ?thesis
  proof (cases oid)
    case None
    with MoveOp req assms gk show ?thesis by (simp add: makeMove_no_id)
  next
    case (Some gameId)
    show ?thesis
    proof (cases "getGame d gameId")
      case None
      with MoveOp req Some assms gk show ?thesis by (simp add: makeMove_unknown)
    next
      case (Some game)
      with assms(1) have gg: "gid game = gameId" by (simp add: keyedById_def getGame_def)
      show ?thesis
      proof (cases "k = gameId")
        case False
        show ?thesis
        proof (cases "status game = Active")
          case True
          with False MoveOp req \<open>oid = Some gameId\<close> Some gg assms gk show ?thesis
            by (simp add: makeMove_active_other)
        next
          case inactive: False
          with makeMove_inactive [OF Some, of R mo gd clk] MoveOp req \<open>oid = Some gameId\<close> assms gk
          show ?thesis by simp
        qed
      next
        case True
        with Some assms(2) have same: "game = g" by (simp add: getGame_def)
        show ?thesis
        proof (cases "status g = Active")
          case True
          with same have "status game = Active" by simp
          from makeMove_active_same [OF Some this gg, of R mo gd clk] MoveOp req \<open>oid = Some gameId\<close> \<open>k = gameId\<close> True
          show ?thesis by auto
        next
          case False
          with makeMove_inactive [OF Some, of R mo gd clk] same MoveOp req \<open>oid = Some gameId\<close> \<open>k = gameId\<close> assms gk
          show ?thesis by simp
        qed
      qed
    qed
  qed
next
  case (ResignOp gameId now)
  from assms have gk: "gid g = k" by (simp add: keyedById_def)
  show ?thesis
  proof (cases "getGame d gameId")
    case None
    with ResignOp assms gk show ?thesis by (simp add: resignGame_unknown)
  next
    case (Some game)
    with assms(1) have gg: "gid game = gameId" by (simp add: keyedById_def getGame_def)
    show ?thesis
    proof (cases "k = gameId")
      case False
      with ResignOp Some gg assms gk show ?thesis by (simp add: resignGame_other)
    next
      case True
      with Some assms(2) have same: "game = g" by (simp add: getGame_def)
      show ?thesis
      proof (cases "status g = Active")
        case True
        from resignGame_same [OF Some gg, of now] ResignOp \<open>k = gameId\<close> True
        show ?thesis by auto
      next
        case False
        with resignGame_inactive [OF Some, of now] same ResignOp \<open>k = gameId\<close> assms gk
        show ?thesis by simp
      qed
    qed
  qed
qed

lemma applyOperation_absent:
  assumes "keyedById d" and "games d k = None"
  shows "games (applyOperation R d op) k = None"
proof (cases op)
  case (MoveOp req gd clk)
  obtain oid mo where req: "req = \<lparr> req_gameId = oid, req_move = mo \<rparr>"
    by (cases req) auto
  show ?thesis
  proof (cases oid)
    case None
    with MoveOp req assms show ?thesis by (simp add: makeMove_no_id)
  next
    case (Some gameId)
    show ?thesis
    proof (cases "getGame d gameId")
      case None
      with MoveOp req Some assms show ?thesis by (simp add: makeMove_unknown)
    next
      case (Some game)
      with assms(1) have gg: "gid game = gameId" by (simp add: keyedById_def getGame_def)
      from Some assms(2) have "k \<noteq> gameId" by (auto simp: getGame_def)
      show ?thesis
      proof (cases "status game = Active")
        case True
        with \<open>k \<noteq> gameId\<close> MoveOp req \<open>oid = Some gameId\<close> Some gg assms show ?thesis
          by (simp add: makeMove_active_other)
      next
        case False
        with makeMove_inactive [OF Some, of R mo gd clk] MoveOp req \<open>oid = Some gameId\<close> assms
        show ?thesis by simp
      qed
    qed
  qed
next
  case (ResignOp gameId now)
  show ?thesis
  proof (cases "getGame d gameId")
    case None
    with ResignOp assms show ?thesis by (simp add: resignGame_unknown)
  next
    case (Some game)
    with assms(1) have gg: "gid game = gameId" by (simp add: keyedById_def getGame_def)
    from Some assms(2) have "k \<noteq> gameId" by (auto simp: getGame_def)
    with ResignOp Some gg assms show ?thesis by (simp add: resignGame_other)
  qed
qed

lemma keyedById_applyOperation:
  assumes "keyedById d"
  shows "keyedById (applyOperation R d op)"
  unfolding keyedById_def
proof (intro allI impI)
  fix k game
  assume a: "games (applyOperation R d op) k = Some game"
  show "gid game = k"
  proof (cases "games d k")
    case None
    from applyOperation_absent [OF assms None, of R op] a show ?thesis by simp
  next
    case (Some g)
    from applyOperation_session [OF assms Some, of R op] a show ?thesis by auto
  qed
qed

lemma terminal_session_kept:
  "keyedById d \<Longrightarrow> games d k = Some g \<Longrightarrow> status g \<noteq> Active \<Longrightarrow>
     games (foldl (applyOperation R) d ops) k = Some g"
proof (induction ops arbitrary: d)
  case Nil
  then show ?case by simp
next
  case (Cons op ops)
  from applyOperation_session [OF Cons.prems(1,2), of R op] Cons.prems(3)
  have "games (applyOperation R d op) k = Some g" by auto
  with Cons.IH [OF keyedById_applyOperation [OF Cons.prems(1)]] Cons.prems(3)
  show ?case by simp
qed

lemma terminal_iff: "terminal s \<longleftrightarrow> s \<noteq> Active"
  by (cases s) (simp_all add: terminal_def)

lemma keyed_ending: "keyedById endingStore"
  by (auto simp: keyedById_def endingStore_def endingGame_def split: if_splits)

lemma keyed_finished: "keyedById finishedStore"
  by (auto simp: keyedById_def finishedStore_def resignedGame_def endingGame_def split: if_splits)

lemma keyedById_saveGame: "keyedById d \<Longrightarrow> keyedById (saveGame d g)"
  by (auto simp: keyedById_def games_saveGame split: if_splits)

lemma createGame_cases:
  obtains (unchanged) "snd (createGame R d req inp) = d"
  | (saved) g where "snd (createGame R d req inp) = saveGame d g"
proof (cases "req_settings req")
  case None
  then have "snd (createGame R d req inp) = d" by (simp add: createGame_def)
  then show ?thesis by (rule unchanged)
next
  case (Some s)
  show ?thesis
  proof (cases "validateGameSettings s")
    case (Some e)
    with \<open>req_settings req = Some s\<close> have "snd (createGame R d req inp) = d"
      by (simp add: createGame_def)
    then show ?thesis by (rule unchanged)
  next
    case None
    define pc where "pc = (case colorSetting s of
                            ChooseRandom \<Rightarrow> (if c_colorDraw inp < 1 / 2 then White else Black)
                          | ChooseWhite \<Rightarrow> White
                          | ChooseBlack \<Rightarrow> Black)"
    show ?thesis
    proof (cases "pc = Black")
      case False
      with \<open>req_settings req = Some s\<close> None
      have "\<exists>g. snd (createGame R d req inp) = saveGame d g"
        by (auto simp add: createGame_def Let_def pc_def)
      then show ?thesis using saved by blast
    next
      case True
      show ?thesis
      proof (cases "getStockfishMove R (c_botDraws inp) startingFen (difficulty s)")
        case Unsettled
        with \<open>req_settings req = Some s\<close> \<open>validateGameSettings s = None\<close> True
        have "snd (createGame R d req inp) = d"
          by (simp add: createGame_def Let_def pc_def)
        then show ?thesis by (rule unchanged)
      next
        case Rejected
        with \<open>req_settings req = Some s\<close> \<open>validateGameSettings s = None\<close> True
        have "snd (createGame R d req inp) = d"
          by (simp add: createGame_def Let_def pc_def)
        then show ?thesis by (rule unchanged)
      next
        case (Resolved ob)
        with \<open>req_settings req = Some s\<close> \<open>validateGameSettings s = None\<close> True
        have "\<exists>g. snd (createGame R d req inp) = saveGame d g"
          by (cases ob) (auto simp add: createGame_def Let_def pc_def)
        then show ?thesis using saved by blast
      qed
    qed
  qed
qed

lemma keyedById_createGame: "keyedById d \<Longrightarrow> keyedById (snd (createGame R d req inp))"
  by (cases rule: createGame_cases [of R d req inp]) (simp_all add: keyedById_saveGame)

lemma keyedById_applyEvent: "keyedById d \<Longrightarrow> keyedById (applyEvent R d ev)"
  by (cases ev) (simp_all add: keyedById_createGame keyedById_applyOperation)

lemma keyedById_foldl_events:
  "keyedById d \<Longrightarrow> keyedById (foldl (applyEvent R) d evs)"
  by (induction evs arbitrary: d) (simp_all add: keyedById_applyEvent)

lemma keyedById_initialStore: "keyedById initialStore"
  by (simp add: keyedById_def initialStore_def)

lemma keyedById_reachableStore: "keyedById (reachableStore R evs)"
  unfolding reachableStore_def
  by (rule keyedById_foldl_events [OF keyedById_initialStore])

text \<open>
  C4. In a store that keeps every session under its own id (every store reached from the
  initial one does, \<open>keyedById_reachableStore\<close>), a move submission or a resignation, for
  any session id, leaves each session's status as it was or moves it from \<open>active\<close> to
  one of checkmate, stalemate, draw and resignation. A session whose status is terminal
  is not changed at all, by this operation or by any sequence of such operations.
\<close>

theorem status_only_leaves_active:
  assumes "keyedById d" and "games d k = Some g"
  shows "\<exists>g'. games (applyOperation R d op) k = Some g'
              \<and> (status g' = status g \<or> (status g = Active \<and> terminal (status g')))
              \<and> (terminal (status g) \<longrightarrow>
                    g' = g \<and> (\<forall>ops. games (foldl (applyOperation R) d ops) k = Some g))"
proof -
  from applyOperation_session [OF assms, of R op] obtain g' where
    g': "games (applyOperation R d op) k = Some g'" and keep: "status g \<noteq> Active \<longrightarrow> g' = g"
    by blast
  have "status g' = status g \<or> (status g = Active \<and> terminal (status g'))"
    using keep by (cases "status g = Active") (auto simp: terminal_iff)
  moreover have "terminal (status g) \<longrightarrow>
        g' = g \<and> (\<forall>ops. games (foldl (applyOperation R) d ops) k = Some g)"
    using keep terminal_session_kept [OF assms] by (auto simp: terminal_iff)
  ultimately show ?thesis using g' by blast
qed

theorem status_only_leaves_active_witness:
  "keyedById finishedStore \<and> games finishedStore ''game_1'' = Some resignedGame
   \<and> terminal (status resignedGame)
   \<and> games (applyOperation endingRules finishedStore (ResignOp ''game_1'' ''2024-01-01T10:06:00.000Z''))
        ''game_1'' = Some resignedGame
   \<and> games (foldl (applyOperation endingRules) finishedStore
               [MoveOp moveKe8 endingDraws endingClock, ResignOp ''game_1'' ''2024-01-01T10:06:00.000Z''])
        ''game_1'' = Some resignedGame
   \<and> keyedById endingStore \<and> games endingStore ''game_1'' = Some endingGame
   \<and> (\<exists>g'. games (applyOperation endingRules endingStore (ResignOp ''game_1'' ''2024-01-01T10:06:00.000Z''))
               ''game_1'' = Some g'
            \<and> (status g' = status endingGame \<or> (status endingGame = Active \<and> terminal (status g'))))"
proof -
  have h1: "games finishedStore ''game_1'' = Some resignedGame"
    by (simp add: finishedStore_def)
  have t: "terminal (status resignedGame)"
    by (simp add: terminal_def resignedGame_def)
  have h2: "games endingStore ''game_1'' = Some endingGame"
    by (simp add: endingStore_def)
  from status_only_leaves_active [OF keyed_finished h1,
      of endingRules "ResignOp ''game_1'' ''2024-01-01T10:06:00.000Z''"] t
  have a: "games (applyOperation endingRules finishedStore (ResignOp ''game_1'' ''2024-01-01T10:06:00.000Z''))
             ''game_1'' = Some resignedGame"
    and b: "\<forall>ops. games (foldl (applyOperation endingRules) finishedStore ops) ''game_1'' = Some resignedGame"
    by auto
  from status_only_leaves_active [OF keyed_ending h2,
      of endingRules "ResignOp ''game_1'' ''2024-01-01T10:06:00.000Z''"]
  have c: "\<exists>g'. games (applyOperation endingRules endingStore (ResignOp ''game_1'' ''2024-01-01T10:06:00.000Z''))
               ''game_1'' = Some g'
            \<and> (status g' = status endingGame \<or> (status endingGame = Active \<and> terminal (status g')))"
    by blast
  from a b c h1 h2 t keyed_finished keyed_ending show ?thesis by blast
qed

subsection \<open>Finished sessions and the rating\<close>

text \<open>
  A resignation stores the result that names the other colour as winner, so the saved
  game counts as a loss for the player: the rating goes down by 15, clamped.
\<close>

lemma resignGame_rating:
  assumes "getGame d gameId = Some game" and "status game = Active"
  shows "\<exists>reply g'. fst (resignGame d gameId now) = Some reply
              \<and> r_game reply = Some g' \<and> status g' = Resignation
              \<and> gameOutcome g' = Some Loss
              \<and> ratingOf (snd (resignGame d gameId now)) = clampRating (ratingOf d - 15)"
proof -
  define game1 where "game1 = game\<lparr> status := Resignation, endTime := Some now,
      result := Some (if playerColor game = White then ''0-1'' else ''1-0'') \<rparr>"
  have s: "status game1 \<noteq> Active" by (simp add: game1_def)
  have s': "status game1 = Resignation" by (simp add: game1_def)
  have o: "gameOutcome game1 = Some Loss"
    by (cases "playerColor game") (simp_all add: game1_def gameOutcome_def)
  have r: "resignGame d gameId now
             = (Some \<lparr> httpStatus = 200, success = True, r_error = None, r_game = Some game1,
                       r_botMove = None \<rparr>, saveGame (mutateGame d gameId game1) game1)"
    using assms by (simp add: resignGame_def Let_def game1_def)
  have "ratingOf (mutateGame d gameId game1) = ratingOf d"
    by (simp add: ratingOf_def mutateGame_def)
  with saveGame_rating_delta [OF s o, of "mutateGame d gameId game1"] r s' o
  show ?thesis by simp
qed

text \<open>
  A session that a move has finished carries one of the three results, so its saving is a
  win, a draw or a loss for the player. (A repetition needs three positions; the two
  boards compared here hold one and two.)
\<close>

lemma gameOutcome_of_result:
  "result g = Some res \<Longrightarrow> res = ''0-1'' \<or> res = ''1-0'' \<or> res = ''1/2-1/2'' \<Longrightarrow>
     \<exists>oc. gameOutcome g = Some oc"
  by (auto simp: gameOutcome_def)

lemma getGameStatus_values:
  assumes "getGameStatus R f = Some res"
  shows "res = ''0-1'' \<or> res = ''1-0'' \<or> res = ''1/2-1/2'' \<or> res = ''active''"
  using assms by (auto simp: getGameStatus_def split: option.splits if_splits)

lemma getGameStatus_over:
  assumes "\<forall>h. length h < 3 \<longrightarrow> \<not> threefold R h"
      and "getGameStatus R f = Some res"
      and "isGameOver R \<lparr> position = f, earlier = [g] \<rparr>"
  shows "res \<noteq> ''active''"
proof -
  from assms(1) have "\<not> threefold R [f, g]" and "\<not> threefold R [f]" by simp_all
  with assms(3) have "isGameOver R \<lparr> position = f, earlier = [] \<rparr>"
    by (auto simp: isGameOver_def isDraw_def isCheckmate_def isStalemate_def chessMoves_def)
  with assms(2) show ?thesis
    by (auto simp: getGameStatus_def newChess_def isGameOver_def split: option.splits if_splits)
qed

lemma finished_by_bot_has_outcome:
  assumes "fst (makeBotMove R d gameId game mr gd clk) = Some reply"
      and "r_game reply = Some g'"
      and "status game = Active" and "status g' \<noteq> Active"
  shows "\<exists>oc. gameOutcome g' = Some oc"
proof (cases "getStockfishMove R gd (mr_fen mr) (difficulty (settings game))")
  case Unsettled
  with assms(1) show ?thesis by (simp add: makeBotMove_def)
next
  case Rejected
  with assms(1,2) show ?thesis by (auto simp: makeBotMove_def failure_def)
next
  case (Resolved ob)
  show ?thesis
  proof (cases ob)
    case None
    with Resolved assms show ?thesis by (auto simp: makeBotMove_def)
  next
    case (Some b)
    show ?thesis
    proof (cases "getGameStatus R (b_fen b)")
      case None
      with Resolved Some assms(1,2) show ?thesis
        by (auto simp: makeBotMove_def failure_def Let_def)
    next
      case (Some gameStatus)
      from Resolved \<open>ob = Some b\<close>
      have sb: "getStockfishMove R gd (mr_fen mr) (difficulty (settings game)) = Resolved (Some b)"
        by simp
      from bot_move_status [OF sb Some, where d = d and gameId = gameId and clk = clk] assms
      have "gameStatus \<noteq> ''active''" and "result g' = Some gameStatus"
        by (auto split: if_splits)
      with getGameStatus_values [OF Some] show ?thesis
        by (auto intro: gameOutcome_of_result)
    qed
  qed
qed

lemma finished_by_move_has_outcome:
  assumes "\<forall>h. length h < 3 \<longrightarrow> \<not> threefold R h"
      and "getGame d gameId = Some game" and "status game = Active"
      and "fst (makeMove R d \<lparr> req_gameId = Some gameId, req_move = Some move \<rparr> gd clk) = Some reply"
      and "r_game reply = Some g'"
      and "status g' \<noteq> Active"
  shows "\<exists>oc. gameOutcome g' = Some oc"
proof -
  let ?f = "fen (currentPosition game)"
  let ?req = "\<lparr> req_gameId = Some gameId, req_move = Some move \<rparr>"
  have ok: "\<not> falsy (Some gameId)" and legal: "isLegalMove R ?f move"
    using assms(2,3,4,5) by (auto simp: makeMove_def failure_def split: if_splits)
  from isLegalMove_engineMakeMove [OF legal] obtain mr where
    mr: "engineMakeMove R ?f move = Some mr" by blast
  define game1 where "game1 = game\<lparr> moves := moves game @ [playerEntry mr (t_playerMove clk)],
        currentPosition := \<lparr> fen = mr_fen mr, turn = fenTurn (mr_fen mr) \<rparr> \<rparr>"
  show ?thesis
  proof (cases "mr_isGameOver mr")
    case False
    have "makeMove R d ?req gd clk = makeBotMove R d gameId game1 mr gd clk"
      using assms(2,3) ok legal mr False by (simp add: makeMove_def Let_def game1_def)
    with assms(4) have "fst (makeBotMove R d gameId game1 mr gd clk) = Some reply" by simp
    moreover have "status game1 = Active" using assms(3) by (simp add: game1_def)
    ultimately show ?thesis using assms(5,6) finished_by_bot_has_outcome by blast
  next
    case True
    show ?thesis
    proof (cases "getGameStatus R (mr_fen mr)")
      case None
      with assms(2,3,4,5) ok legal mr True show ?thesis
        by (auto simp: makeMove_def Let_def failure_def)
    next
      case (Some res)
      with assms(2,3,4,5) ok legal mr True have r: "result g' = Some res"
        by (auto simp: makeMove_def Let_def)
      from engineMakeMove_facts [OF mr] True
      have "isGameOver R \<lparr> position = mr_fen mr, earlier = [?f] \<rparr>" by blast
      from getGameStatus_over [OF assms(1) Some this] getGameStatus_values [OF Some] r
      show ?thesis by (auto intro: gameOutcome_of_result)
    qed
  qed
qed

section \<open>The bot's move\<close>

lemma chessMove_listed:
  assumes "m \<in> set (chessMoves R c)"
  shows "\<exists>m' c'. chessMove R c (requestOf m) = Some (m', c') \<and> m' \<in> set (chessMoves R c)
                \<and> position c' = mafter m' \<and> earlier c' \<noteq> []"
proof (cases "find (matchesRequest (requestOf m)) (chessMoves R c)")
  case None
  then have "\<not> matchesRequest (requestOf m) m"
    using assms by (auto simp: find_None_iff)
  then show ?thesis by (simp add: matchesRequest_def requestOf_def)
next
  case (Some m')
  then have "m' \<in> set (chessMoves R c)" by (rule find_member [THEN conjunct1])
  with Some show ?thesis by (simp add: chessMove_def)
qed

lemma foldl_option_total:
  assumes "\<And>x a. x \<in> set xs \<Longrightarrow> \<exists>b. f (Some a) x = Some b"
  shows "\<exists>b. foldl f (Some a) xs = Some b"
  using assms
proof (induction xs arbitrary: a)
  case Nil
  then show ?case by simp
next
  case (Cons x xs)
  from Cons.prems [of x a] obtain b where b: "f (Some a) x = Some b" by auto
  from Cons.IH [of b] Cons.prems have "\<exists>c. foldl f (Some b) xs = Some c" by auto
  with b show ?case by simp
qed

lemma evaluateQuick_returns: "\<exists>s. evaluateQuick R chess depth = Some s"
proof (induction R chess depth rule: evaluateQuick.induct)
  case (1 R chess depth)
  show ?case
  proof (cases "depth \<le> 0 \<or> isGameOver R chess")
    case True
    then show ?thesis by (subst evaluateQuick.simps) simp
  next
    case False
    have step: "\<exists>b. (case chessMove R chess (requestOf x) of
                       None \<Rightarrow> None
                     | Some (made, chess') \<Rightarrow>
                         (case evaluateQuick R chess' (depth - 1) of
                            None \<Rightarrow> None
                          | Some s \<Rightarrow> Some (smax a (sneg s)))) = Some b"
      if x: "x \<in> set (take 3 (chessMoves R chess))" for x a
    proof -
      from x have "x \<in> set (chessMoves R chess)" by (rule in_set_takeD)
      from chessMove_listed [OF this] obtain m' c' where
        cm: "chessMove R chess (requestOf x) = Some (m', c')" by blast
      from "1.IH" [OF False x refl cm refl] obtain s where
        "evaluateQuick R c' (depth - 1) = Some s" by blast
      with cm show ?thesis by simp
    qed
    have "\<exists>b. foldl (\<lambda>acc move.
           (case acc of
              None \<Rightarrow> None
            | Some maxScore \<Rightarrow>
                (case chessMove R chess (requestOf move) of
                   None \<Rightarrow> None
                 | Some (made, chess') \<Rightarrow>
                     (case evaluateQuick R chess' (depth - 1) of
                        None \<Rightarrow> None
                      | Some s \<Rightarrow> Some (smax maxScore (sneg s))))))
          (Some NegInf) (take 3 (chessMoves R chess)) = Some b"
      by (rule foldl_option_total) (simp add: step)
    with False show ?thesis by (subst evaluateQuick.simps) simp
  qed
qed


lemma foldl_best_member:
  assumes "set xs \<subseteq> set (chessMoves R chess)" and "bm \<in> set (chessMoves R chess)"
  shows "\<exists>bm' sc'. foldl (\<lambda>acc move.
                       (case acc of
                          None \<Rightarrow> None
                        | Some (bestMove, bestScore) \<Rightarrow>
                            (case chessMove R chess (requestOf move) of
                               None \<Rightarrow> None
                             | Some (made, chess') \<Rightarrow>
                                 (case evaluateQuick R chess' depth of
                                    None \<Rightarrow> None
                                  | Some sc \<Rightarrow>
                                      Some (if sgreater sc bestScore then (move, sc)
                                            else (bestMove, bestScore))))))
                     (Some (bm, sc0)) xs = Some (bm', sc')
                 \<and> bm' \<in> set (chessMoves R chess)"
  using assms
proof (induction xs arbitrary: bm sc0)
  case Nil
  then show ?case by simp
next
  case (Cons x xs)
  from Cons.prems have x: "x \<in> set (chessMoves R chess)" by simp
  from chessMove_listed [OF x] obtain m' c' where
    cm: "chessMove R chess (requestOf x) = Some (m', c')" by blast
  from evaluateQuick_returns obtain sc where sc: "evaluateQuick R c' depth = Some sc" by blast
  show ?case
  proof (cases "sgreater sc sc0")
    case True
    from Cons.IH [of x sc] Cons.prems x cm sc True show ?thesis by simp
  next
    case False
    from Cons.IH [of bm sc0] Cons.prems cm sc False show ?thesis by simp
  qed
qed

lemma calculateBestMove_member:
  assumes "validFen R f" and "legalMoves R f \<noteq> []"
  shows "\<exists>m \<in> set (legalMoves R f). calculateBestMove R f depth = Some (bestMoveOf m)"
proof -
  let ?chess = "\<lparr> position = f, earlier = [] \<rparr>"
  from assms(2) obtain first rest where ms: "chessMoves R ?chess = first # rest"
    by (cases "legalMoves R f") (auto simp: chessMoves_def)
  have sub: "set (take (min (length (chessMoves R ?chess)) 10) (chessMoves R ?chess))
               \<subseteq> set (chessMoves R ?chess)"
    by (rule set_take_subset)
  have fm: "first \<in> set (chessMoves R ?chess)" by (simp add: ms)
  from foldl_best_member [OF sub fm, of depth NegInf] obtain bm' sc' where
    fold: "foldl (\<lambda>acc move.
                       (case acc of
                          None \<Rightarrow> None
                        | Some (bestMove, bestScore) \<Rightarrow>
                            (case chessMove R ?chess (requestOf move) of
                               None \<Rightarrow> None
                             | Some (made, chess') \<Rightarrow>
                                 (case evaluateQuick R chess' depth of
                                    None \<Rightarrow> None
                                  | Some sc \<Rightarrow>
                                      Some (if sgreater sc bestScore then (move, sc)
                                            else (bestMove, bestScore))))))
                     (Some (first, NegInf))
                     (take (min (length (chessMoves R ?chess)) 10) (chessMoves R ?chess))
             = Some (bm', sc')"
    and mem: "bm' \<in> set (chessMoves R ?chess)"
    by blast
  have "calculateBestMove R f depth = Some (bestMoveOf bm')"
    using assms(1) ms fold
    by (simp add: calculateBestMove_def newChess_def Let_def)
  with mem show ?thesis by (auto simp: chessMoves_def)
qed

lemma nthOpt_nth: "k < length xs \<Longrightarrow> nthOpt xs k = Some (xs ! k)"
  by (induction xs k rule: nthOpt.induct) simp_all

lemma atFloor_member:
  assumes "0 \<le> r" and "r < 1" and "0 < n" and "n \<le> length xs"
  shows "\<exists>x \<in> set xs. atFloor xs (r * of_nat n) = Some x"
proof -
  have nn: "0 \<le> r * of_nat n" using assms(1) by simp
  then have f0: "0 \<le> \<lfloor>r * of_nat n\<rfloor>" by simp
  have "r * of_nat n < of_nat n" using assms(2,3) by simp
  then have "\<lfloor>r * of_nat n\<rfloor> < int n" by (simp add: floor_less_iff)
  with f0 assms(4) have "nat \<lfloor>r * of_nat n\<rfloor> < length xs" by linarith
  from nthOpt_nth [OF this] f0 this show ?thesis
    by (auto simp: atFloor_def)
qed

lemma pvLoop_returns:
  assumes "\<forall>j. 0 \<le> rs j \<and> rs j < 1"
  shows "\<exists>out. pvLoop R rs chess pv i depth = Some out"
  using assms
proof (induction R rs chess pv i depth rule: pvLoop.induct)
  case (1 R rs chess pv i depth)
  show ?case
  proof (cases "i < depth \<and> length (chessMoves R chess) \<noteq> 0")
    case False
    then show ?thesis by (subst pvLoop.simps) (auto simp: Let_def)
  next
    case True
    then have "0 < min 3 (length (chessMoves R chess))"
      and "min 3 (length (chessMoves R chess)) \<le> length (chessMoves R chess)"
      by simp_all
    moreover from "1.prems" have "0 \<le> rs i" and "rs i < 1" by simp_all
    ultimately have "\<exists>x \<in> set (chessMoves R chess).
        atFloor (chessMoves R chess) (rs i * of_nat (min 3 (length (chessMoves R chess)))) = Some x"
      by (intro atFloor_member)
    then obtain nextMove where
      nm: "nextMove \<in> set (chessMoves R chess)"
      and a: "atFloor (chessMoves R chess) (rs i * of_nat (min 3 (length (chessMoves R chess)))) = Some nextMove"
      by auto
    from chessMove_listed [OF nm] obtain m' c' where
      cm: "chessMove R chess (requestOf nextMove) = Some (m', c')" by blast
    from True have lt: "i < depth" and ne: "length (chessMoves R chess) \<noteq> 0" by simp_all
    from "1.IH" [OF lt refl ne a cm refl "1.prems"] obtain out where
      "pvLoop R rs c' (pv @ [msan nextMove]) (i + 1) depth = Some out" by blast
    with lt ne a cm show ?thesis by (subst pvLoop.simps) (simp add: Let_def)
  qed
qed

lemma calculatePrincipalVariation_returns:
  assumes "validFen R f" and "m \<in> set (legalMoves R f)" and "\<forall>j. 0 \<le> rs j \<and> rs j < 1"
  shows "\<exists>out. calculatePrincipalVariation R rs f (bestMoveOf m) depth = Some out"
proof -
  let ?chess = "\<lparr> position = f, earlier = [] \<rparr>"
  from assms(2) have "m \<in> set (chessMoves R ?chess)" by (simp add: chessMoves_def)
  from chessMove_listed [OF this] obtain m' c' where
    cm: "chessMove R ?chess (requestOf m) = Some (m', c')" by blast
  have rq: "\<lparr> r_from = bm_from (bestMoveOf m), r_to = bm_to (bestMoveOf m),
             r_promotion = bm_promotion (bestMoveOf m) \<rparr> = requestOf m"
    by (simp add: bestMoveOf_def requestOf_def)
  from pvLoop_returns [OF assms(3), of R c' "[bm_san (bestMoveOf m)]" 1 depth] obtain out where
    "pvLoop R rs c' [bm_san (bestMoveOf m)] 1 depth = Some out" by auto
  with assms(1) cm rq show ?thesis
    by (simp add: calculatePrincipalVariation_def newChess_def Let_def)
qed

lemma calculateStockfishEvaluation_returns:
  assumes "validFen R f" and "validFen R (flipTurn (fenText R f))"
  shows "\<exists>e. calculateStockfishEvaluation R r f depth = Some e"
  using assms
  by (simp add: calculateStockfishEvaluation_def newChess_def evaluateMobility_def chessLoad_def
        chessFen_def Let_def)

lemma analyzePosition_returns:
  assumes "validFen R f" and "validFen R (flipTurn (fenText R f))" and "legalMoves R f \<noteq> []"
      and "\<forall>j. 0 \<le> d_pv ds j \<and> d_pv ds j < 1"
  shows "\<exists>a. analyzePosition R ds f depth = Resolved a"
proof -
  from calculateStockfishEvaluation_returns [OF assms(1,2)] obtain e where
    e: "calculateStockfishEvaluation R (d_noise ds) f depth = Some e" by blast
  from calculateBestMove_member [OF assms(1,3)] obtain m where
    m: "m \<in> set (legalMoves R f)" and bm: "calculateBestMove R f depth = Some (bestMoveOf m)"
    by blast
  from calculatePrincipalVariation_returns [OF assms(1) m assms(4), of 3] obtain out where
    "calculatePrincipalVariation R (d_pv ds) f (bestMoveOf m) 3 = Some out" by auto
  with e bm show ?thesis by (simp add: analyzePosition_def)
qed

lemma orElse_member:
  assumes "ms \<noteq> []" and "set ts \<subseteq> set ms" and "ts \<noteq> []"
  shows "\<exists>m \<in> set ms. orElse (findBest best ms) (nthOpt ts 0) = Some m"
proof (cases "findBest best ms")
  case None
  from assms(3) obtain t rest where "ts = t # rest" by (cases ts) auto
  with None assms(2) show ?thesis by (auto simp: orElse_def)
next
  case (Some m)
  then have "m \<in> set ms" unfolding findBest_def by (rule find_member [THEN conjunct1])
  with Some show ?thesis by (simp add: orElse_def)
qed

lemma selectMove_member:
  assumes "validFen R f" and "validFen R (flipTurn (fenText R f))" and "legalMoves R f \<noteq> []"
      and "0 \<le> g_index gd \<and> g_index gd < 1"
      and "\<forall>j. 0 \<le> d_pv (g_analysis gd) j \<and> d_pv (g_analysis gd) j < 1"
  shows "\<exists>m \<in> set (legalMoves R f). selectMove R gd f level (legalMoves R f) = Resolved (Some m)"
proof -
  let ?ms = "legalMoves R f"
  have an: "\<exists>a. analyzePosition R (g_analysis gd) f depth = Resolved a" for depth
    by (rule analyzePosition_returns [OF assms(1,2,3,5)])
  have whole: "\<exists>m \<in> set ?ms. orElse (findBest best ?ms) (nthOpt ?ms 0) = Some m" for best
    by (rule orElse_member [OF assms(3) subset_refl assms(3)])
  have t3: "take 3 ?ms \<noteq> []" using assms(3) by (cases ?ms) simp_all
  have top: "\<exists>m \<in> set ?ms. orElse (findBest best ?ms) (nthOpt (take 3 ?ms) 0) = Some m" for best
    by (rule orElse_member [OF assms(3) set_take_subset t3])
  have rnd: "\<exists>m \<in> set ?ms. atFloor ?ms (g_index gd * of_nat (length ?ms)) = Some m"
    using atFloor_member [OF conjunct1 [OF assms(4)] conjunct2 [OF assms(4)], of "length ?ms" ?ms]
      assms(3) by simp
  have "\<exists>m \<in> set (take 3 ?ms). atFloor (take 3 ?ms) (g_index gd * of_nat (length (take 3 ?ms))) = Some m"
    using atFloor_member [OF conjunct1 [OF assms(4)] conjunct2 [OF assms(4)],
        of "length (take 3 ?ms)" "take 3 ?ms"] t3 by simp
  then have rnd3: "\<exists>m \<in> set ?ms. atFloor (take 3 ?ms) (g_index gd * of_nat (length (take 3 ?ms))) = Some m"
    by (meson in_set_takeD)
  show ?thesis
  proof (cases level)
    case Stockfish
    from an [of 18] obtain a where "analyzePosition R (g_analysis gd) f 18 = Resolved a" by blast
    with Stockfish whole [of "sr_bestMove a"] show ?thesis by (simp add: selectMove_def)
  next
    case Advanced
    from an [of 12] obtain a where "analyzePosition R (g_analysis gd) f 12 = Resolved a" by blast
    with Advanced whole [of "sr_bestMove a"] show ?thesis by (simp add: selectMove_def)
  next
    case Intermediate
    from an [of 8] obtain a where "analyzePosition R (g_analysis gd) f 8 = Resolved a" by blast
    with Intermediate top [of "sr_bestMove a"] rnd3 show ?thesis
      by (simp add: selectMove_def Let_def)
  next
    case Beginner
    from an [of 4] obtain a where "analyzePosition R (g_analysis gd) f 4 = Resolved a" by blast
    with Beginner whole [of "sr_bestMove a"] rnd show ?thesis
      by (simp add: selectMove_def)
  qed
qed

lemma getStockfishMove_returns_listed:
  assumes "validFen R f" and "validFen R (flipTurn (fenText R f))" and "legalMoves R f \<noteq> []"
      and "0 \<le> g_index gd \<and> g_index gd < 1"
      and "\<forall>j. 0 \<le> d_pv (g_analysis gd) j \<and> d_pv (g_analysis gd) j < 1"
  shows "\<exists>m \<in> set (legalMoves R f).
           getStockfishMove R gd f level
             = Resolved (Some \<lparr> b_from = mfrom m, b_to = mto m, b_san = msan m,
                                b_fen = mafter m, b_promotion = mpromotion m \<rparr>)"
proof -
  let ?chess = "\<lparr> position = f, earlier = [] \<rparr>"
  from selectMove_member [OF assms(1,2,3,4,5), of level] obtain sel where
    sel: "sel \<in> set (legalMoves R f)"
    and sm: "selectMove R gd f level (legalMoves R f) = Resolved (Some sel)" by blast
  from sel have "sel \<in> set (chessMoves R ?chess)" by (simp add: chessMoves_def)
  from chessMove_listed [OF this] obtain m' c' where
    cm: "chessMove R ?chess (requestOf sel) = Some (m', c')"
    and mm: "m' \<in> set (chessMoves R ?chess)" and pc: "position c' = mafter m'"
    and ec: "earlier c' \<noteq> []" by blast
  have "getStockfishMove R gd f level
          = Resolved (Some \<lparr> b_from = mfrom m', b_to = mto m', b_san = msan m',
                             b_fen = mafter m', b_promotion = mpromotion m' \<rparr>)"
    using assms(1,3) sm cm pc ec
    by (simp add: getStockfishMove_def newChess_def chessMoves_def chessFen_def Let_def)
  with mm show ?thesis by (auto simp: chessMoves_def)
qed

lemma getStockfishMove_result_listed:
  assumes "getStockfishMove R gd f level = Resolved (Some b)"
  shows "\<exists>m \<in> set (legalMoves R f).
           b = \<lparr> b_from = mfrom m, b_to = mto m, b_san = msan m,
                 b_fen = mafter m, b_promotion = mpromotion m \<rparr>"
proof -
  let ?chess = "\<lparr> position = f, earlier = [] \<rparr>"
  from assms obtain sel move chess' where
    cm: "chessMove R ?chess (requestOf sel) = Some (move, chess')"
    and b: "b = \<lparr> b_from = mfrom move, b_to = mto move, b_san = msan move,
                   b_fen = chessFen R chess', b_promotion = mpromotion move \<rparr>"
    by (auto simp: getStockfishMove_def newChess_def Let_def
          split: option.splits if_splits promise.splits)
  from cm obtain "move \<in> set (legalMoves R f)" and "position chess' = mafter move"
    and "earlier chess' \<noteq> []"
    by (auto simp: chessMove_def chessMoves_def split: option.splits dest: find_member)
  with b show ?thesis by (auto simp: chessFen_def)
qed

text \<open>
  What the bot returns as a move is one of the oracle's legal moves of the position, with
  that move's SAN and resulting position. And it does return a move, for every difficulty
  tier, when the position has a legal move, the oracle accepts the position, also in the
  form \<open>evaluateMobility\<close> reloads it during the awaited analysis, and the numbers drawn
  are those \<open>Math.random()\<close> can return (at least 0, below 1).
\<close>

lemma bot_move_listed:
  "(\<forall>b. getStockfishMove R gd f level = Resolved (Some b) \<longrightarrow>
        (\<exists>m \<in> set (legalMoves R f).
           b = \<lparr> b_from = mfrom m, b_to = mto m, b_san = msan m,
                 b_fen = mafter m, b_promotion = mpromotion m \<rparr>))
   \<and> (validFen R f \<and> validFen R (flipTurn (fenText R f)) \<and> legalMoves R f \<noteq> []
        \<and> (0 \<le> g_index gd \<and> g_index gd < 1)
        \<and> (\<forall>j. 0 \<le> d_pv (g_analysis gd) j \<and> d_pv (g_analysis gd) j < 1)
      \<longrightarrow> (\<exists>m \<in> set (legalMoves R f).
             getStockfishMove R gd f level
               = Resolved (Some \<lparr> b_from = mfrom m, b_to = mto m, b_san = msan m,
                                  b_fen = mafter m, b_promotion = mpromotion m \<rparr>)))"
  using getStockfishMove_result_listed [of R gd f level]
    getStockfishMove_returns_listed [of R f gd level]
  by blast

subsection \<open>The reload that the library refuses\<close>

text \<open>
  When the library does not accept the text that \<open>evaluateMobility\<close> builds for its
  reload, the analysis ends in an exception inside the timer callback and its promise is
  never settled. A tier that awaits the analysis then never returns a move, although the
  position is accepted and has legal moves.
\<close>

lemma analysis_unsettled_when_reload_rejected:
  assumes "\<not> validFen R (flipTurn (fenText R f))"
  shows "analyzePosition R ds f depth = Unsettled"
  using assms
  by (simp add: analyzePosition_def calculateStockfishEvaluation_def evaluateMobility_def
        chessLoad_def chessFen_def newChess_def Let_def split: option.splits)

lemma selectMove_unsettled:
  assumes "\<not> validFen R (flipTurn (fenText R f))"
      and "level = Beginner \<longrightarrow> g_first gd < 3 / 10"
  shows "selectMove R gd f level candidates = Unsettled"
  using assms analysis_unsettled_when_reload_rejected [OF assms(1)]
  by (cases level) (simp_all add: selectMove_def)

lemma getStockfishMove_unsettled:
  assumes "validFen R f" and "legalMoves R f \<noteq> []"
      and "\<not> validFen R (flipTurn (fenText R f))"
      and "level = Beginner \<longrightarrow> g_first gd < 3 / 10"
  shows "getStockfishMove R gd f level = Unsettled"
  using assms(1,2) selectMove_unsettled [OF assms(3,4)]
  by (simp add: getStockfishMove_def newChess_def chessMoves_def)

text \<open>
  C2. The claim asks that the bot returns a legal move for every position that has one
  and for every difficulty tier. After White's e2-e4 next to the black pawn on d4, Black
  is to move and has seven legal moves, among them the capture in passing on e3. The
  text that \<open>evaluateMobility\<close> builds for its reload has White to move and still names
  the square e3, which the library refuses. So the tiers stockfish, advanced and
  intermediate never return a move for this position, nor does the beginner tier when it
  asks for the analysis (first draw below 0.3); only the beginner tier's random pick
  returns one.
\<close>

theorem bot_never_answers_after_double_push:
  "validFen enPassantRules posEnPassant
   \<and> map msan (legalMoves enPassantRules posEnPassant)
       = [''Kf8'', ''Kf7'', ''Ke7'', ''Kd7'', ''Kd8'', ''d3'', ''dxe3'']
   \<and> flipTurn (fenText enPassantRules posEnPassant) = ''4k3/8/8/8/3pP3/8/8/4K3 w - e3 0 1''
   \<and> \<not> validFen enPassantRules (flipTurn (fenText enPassantRules posEnPassant))
   \<and> getStockfishMove enPassantRules analysisDraws posEnPassant Stockfish = Unsettled
   \<and> getStockfishMove enPassantRules analysisDraws posEnPassant Advanced = Unsettled
   \<and> getStockfishMove enPassantRules analysisDraws posEnPassant Intermediate = Unsettled
   \<and> getStockfishMove enPassantRules analysisDraws posEnPassant Beginner = Unsettled
   \<and> getStockfishMove enPassantRules randomDraws posEnPassant Beginner
       = Resolved (Some \<lparr> b_from = ''d4'', b_to = ''e3'', b_san = ''dxe3'',
                           b_fen = ''4k3/8/8/8/8/4p3/8/4K3 w - - 0 2'', b_promotion = None \<rparr>)"
  by code_simp

text \<open>
  In a game: the player, with White against the advanced bot, submits e2-e4. The move is
  entered in the session, the handler then waits for the bot's move for ever, and the
  request gets no reply; the session stays active with the bot to move.
\<close>

lemma submission_without_reply:
  "fst (makeMove enPassantRules enPassantStore moveE4 analysisDraws endingClock) = None
   \<and> map_option (\<lambda>g. (status g, map m_san (moves g), fen (currentPosition g)))
         (getGame (snd (makeMove enPassantRules enPassantStore moveE4 analysisDraws endingClock))
            ''game_2'')
       = Some (Active, [''e4''], posEnPassant)"
  by code_simp

end
